theory Spec2Isabelle
  imports Complex_Main "HOL-Library.AList"
begin

section \<open>Values, errors and the calls that can fail\<close>

text \<open>
  A message is a Python dict of JSON values. The dict is an association list in
  insertion order; \<open>map_of\<close> reads a key, \<open>AList.update\<close> assigns one (an existing key
  keeps its place, a new one goes last, as in a Python dict).
\<close>

datatype json =
    JNull
  | JBool bool
  | JInt int
  | JFloat real
  | JStr string
  | JList "json list"
  | JObj "(string \<times> json) list"

type_synonym message = "(string \<times> json) list"

text \<open>A socket handle. The manager only stores it and calls \<open>accept\<close> and \<open>send_json\<close> on it.\<close>

datatype websocket = WebSocket nat

text \<open>
  The exceptions of the source. \<open>CancelledError\<close> is the only one that is not an
  \<open>Exception\<close>: a handler \<open>except Exception\<close> lets it through.
\<close>

datatype error =
    SocketError
  | RedisError
  | RuntimeError
  | KeyError
  | IndexError
  | ValueError
  | AttributeError
  | JSONDecodeError
  | UnicodeDecodeError
  | CancelledError

fun is_Exception :: "error \<Rightarrow> bool" where
  "is_Exception CancelledError = False"
| "is_Exception _ = True"

text \<open>
  A call into the outside world (a socket, the Redis server) goes through or raises.
  Which of the two is not decided by the program: the state carries the outcomes of the
  calls to come, \<open>True\<close> for a call that raises, consumed one per call. When the list is
  used up, calls go through.
\<close>

fun next_fault :: "bool list \<Rightarrow> bool \<times> bool list" where
  "next_fault [] = (False, [])"
| "next_fault (b # bs) = (b, bs)"

text \<open>
  Code that can raise: a function from the state to a result and the state at that
  point. \<open>Inl e\<close> is the exception \<open>e\<close> propagating.
\<close>

type_synonym ('s, 'a) action = "'s \<Rightarrow> (error + 'a) \<times> 's"

definition return :: "'a \<Rightarrow> ('s, 'a) action" where
  "return x = (\<lambda>s. (Inr x, s))"

definition raise :: "error \<Rightarrow> ('s, 'a) action" where
  "raise e = (\<lambda>s. (Inl e, s))"

definition and_then :: "('s, 'a) action \<Rightarrow> ('a \<Rightarrow> ('s, 'b) action) \<Rightarrow> ('s, 'b) action" where
  "and_then m f = (\<lambda>s. case m s of (Inl e, s') \<Rightarrow> (Inl e, s') | (Inr x, s') \<Rightarrow> f x s')"

text \<open>\<open>try: body except Exception: handler\<close>.\<close>

definition try_except :: "('s, 'a) action \<Rightarrow> (error \<Rightarrow> ('s, 'a) action) \<Rightarrow> ('s, 'a) action" where
  "try_except body handler =
     (\<lambda>s. case body s of
        (Inl e, s') \<Rightarrow> if is_Exception e then handler e s' else (Inl e, s')
      | (Inr x, s') \<Rightarrow> (Inr x, s'))"

text \<open>Python's truth value of an optional integer: \<open>None\<close> and \<open>0\<close> are false.\<close>

fun truthy :: "int option \<Rightarrow> bool" where
  "truthy None = False"
| "truthy (Some n) = (n \<noteq> 0)"


section \<open>Sockets\<close>

text \<open>
  The sockets' side of the world, shared by the two managers: every \<open>send_json\<close> call
  made so far, in order, with its outcome (\<open>True\<close> for a frame that went out), and the
  outcomes of the socket calls to come.
\<close>

record sockets =
  socket_log :: "(websocket \<times> message \<times> bool) list"
  socket_faults :: "bool list"

definition accept :: "websocket \<Rightarrow> ('a sockets_scheme, unit) action" where
  "accept ws = (\<lambda>s.
     case next_fault (socket_faults s) of
       (True, fs) \<Rightarrow> (Inl SocketError, s\<lparr>socket_faults := fs\<rparr>)
     | (False, fs) \<Rightarrow> (Inr (), s\<lparr>socket_faults := fs\<rparr>))"

definition send_json :: "websocket \<Rightarrow> message \<Rightarrow> ('a sockets_scheme, unit) action" where
  "send_json ws msg = (\<lambda>s.
     case next_fault (socket_faults s) of
       (True, fs) \<Rightarrow>
         (Inl SocketError, s\<lparr>socket_faults := fs, socket_log := socket_log s @ [(ws, msg, False)]\<rparr>)
     | (False, fs) \<Rightarrow>
         (Inr (), s\<lparr>socket_faults := fs, socket_log := socket_log s @ [(ws, msg, True)]\<rparr>))"


section \<open>WebSocketManager (manager.py)\<close>

text \<open>The three dictionaries of the manager, on top of the sockets.\<close>

record ws_manager = sockets +
  active_connections :: "string \<rightharpoonup> websocket"
  session_connections :: "int \<rightharpoonup> string list"
  user_connections :: "int \<rightharpoonup> string list"

definition init_manager :: "bool list \<Rightarrow> ws_manager" where
  "init_manager faults =
     \<lparr>socket_log = [], socket_faults = faults,
      active_connections = Map.empty, session_connections = Map.empty,
      user_connections = Map.empty\<rparr>"

text \<open>\<open>d.setdefault(k, []).append(c)\<close>, written in the source as a test and an append.\<close>

definition index_append :: "int \<Rightarrow> string \<Rightarrow> (int \<rightharpoonup> string list) \<Rightarrow> (int \<rightharpoonup> string list)" where
  "index_append k c d = d(k \<mapsto> (case d k of None \<Rightarrow> [] | Some cs \<Rightarrow> cs) @ [c])"

text \<open>
  The removal of \<open>disconnect\<close> on one index, for a key that is in it: the first
  occurrence of the connection goes, and an entry left empty is deleted.
\<close>

definition index_remove :: "int \<Rightarrow> string \<Rightarrow> (int \<rightharpoonup> string list) \<Rightarrow> (int \<rightharpoonup> string list)" where
  "index_remove k c d =
     (case d k of
        None \<Rightarrow> d
      | Some cs \<Rightarrow>
          (let cs' = (if c \<in> set cs then remove1 c cs else cs)
           in if cs' = [] then d(k := None) else d(k \<mapsto> cs')))"

definition connect ::
  "websocket \<Rightarrow> string \<Rightarrow> int \<Rightarrow> int option \<Rightarrow> (ws_manager, unit) action" where
  "connect ws connection_id session_id user_id =
     and_then (accept ws) (\<lambda>_ s.
       let s1 = s\<lparr>active_connections := (active_connections s)(connection_id \<mapsto> ws)\<rparr>;
           s2 = s1\<lparr>session_connections :=
                     index_append session_id connection_id (session_connections s1)\<rparr>;
           s3 = (if truthy user_id
                 then s2\<lparr>user_connections :=
                           index_append (the user_id) connection_id (user_connections s2)\<rparr>
                 else s2)
       in (Inr (), s3))"

definition disconnect :: "string \<Rightarrow> int \<Rightarrow> int option \<Rightarrow> ws_manager \<Rightarrow> ws_manager" where
  "disconnect connection_id session_id user_id s =
     (let s1 = s\<lparr>active_connections := (active_connections s)(connection_id := None)\<rparr>;
          s2 = s1\<lparr>session_connections :=
                    index_remove session_id connection_id (session_connections s1)\<rparr>
      in if truthy user_id
         then s2\<lparr>user_connections :=
                   index_remove (the user_id) connection_id (user_connections s2)\<rparr>
         else s2)"

text \<open>
  The first loop of \<open>send_to_session\<close>, over the list of the session, with its two
  accumulators. The \<open>try\<close> holds the write, \<open>sent_count += 1\<close> and the debug line,
  whose f-string reads \<open>message['type']\<close> whatever the log level: a message with no
  such key raises \<open>KeyError\<close> there, after the counter has moved. Both exceptions are
  \<open>Exception\<close>s and take the handler.
\<close>

fun session_pass ::
  "message \<Rightarrow> string list \<Rightarrow> nat \<Rightarrow> string list \<Rightarrow> ws_manager \<Rightarrow> nat \<times> string list \<times> ws_manager" where
  "session_pass msg [] sent_count to_remove s = (sent_count, to_remove, s)"
| "session_pass msg (c # cs) sent_count to_remove s =
     (case active_connections s c of
        None \<Rightarrow> session_pass msg cs sent_count to_remove s
      | Some ws \<Rightarrow>
          (case send_json ws msg s of
             (Inl e, s') \<Rightarrow> session_pass msg cs sent_count (to_remove @ [c]) s'
           | (Inr _, s') \<Rightarrow>
               (case map_of msg ''type'' of
                  None \<Rightarrow> session_pass msg cs (Suc sent_count) (to_remove @ [c]) s'
                | Some _ \<Rightarrow> session_pass msg cs (Suc sent_count) to_remove s')))"

definition send_to_session :: "int \<Rightarrow> message \<Rightarrow> ws_manager \<Rightarrow> nat \<times> ws_manager" where
  "send_to_session session_id msg s =
     (case session_connections s session_id of
        None \<Rightarrow> (0, s)
      | Some cs \<Rightarrow>
          (case session_pass msg cs 0 [] s of
             (sent_count, to_remove, s') \<Rightarrow>
               (sent_count, fold (\<lambda>c. disconnect c session_id None) to_remove s')))"

fun user_pass ::
  "message \<Rightarrow> string list \<Rightarrow> nat \<Rightarrow> string list \<Rightarrow> ws_manager \<Rightarrow> nat \<times> string list \<times> ws_manager" where
  "user_pass msg [] sent_count to_remove s = (sent_count, to_remove, s)"
| "user_pass msg (c # cs) sent_count to_remove s =
     (case active_connections s c of
        None \<Rightarrow> user_pass msg cs sent_count to_remove s
      | Some ws \<Rightarrow>
          (case send_json ws msg s of
             (Inl e, s') \<Rightarrow> user_pass msg cs sent_count (to_remove @ [c]) s'
           | (Inr _, s') \<Rightarrow> user_pass msg cs (Suc sent_count) to_remove s'))"

text \<open>The second loop of \<open>send_to_user\<close> is \<open>pass\<close>: nothing is removed.\<close>

definition send_to_user :: "int \<Rightarrow> message \<Rightarrow> ws_manager \<Rightarrow> nat \<times> ws_manager" where
  "send_to_user user_id msg s =
     (case user_connections s user_id of
        None \<Rightarrow> (0, s)
      | Some cs \<Rightarrow>
          (case user_pass msg cs 0 [] s of
             (sent_count, to_remove, s') \<Rightarrow> (sent_count, s')))"

definition get_session_connection_count :: "int \<Rightarrow> ws_manager \<Rightarrow> nat" where
  "get_session_connection_count session_id s =
     length (case session_connections s session_id of None \<Rightarrow> [] | Some cs \<Rightarrow> cs)"



section \<open>The shared store and the RedisWebSocketManager (redis_manager.py)\<close>

text \<open>
  Bytes that the program hands to \<open>json.loads\<close>: a hash field's value, the data of a
  published message. They are kept as what \<open>json.loads\<close> reads from them; \<open>Garbled\<close>
  stands for bytes that it rejects (or that do not decode).
\<close>

datatype payload = Garbled | Text json

fun json_loads :: "payload \<Rightarrow> error + json" where
  "json_loads Garbled = Inl JSONDecodeError"
| "json_loads (Text j) = Inr j"

definition json_dumps :: "json \<Rightarrow> payload" where
  "json_dumps j = Text j"

text \<open>
  The subscription object \<open>redis.pubsub()\<close> with the patterns it is subscribed to, and
  the listener task.
\<close>

datatype pubsub = PubSub (patterns: "string list") (closed: bool)

datatype task = Running | Cancelled | Finished

fun task_done :: "task \<Rightarrow> bool" where
  "task_done Running = False"
| "task_done _ = True"

text \<open>
  The manager object (\<open>local_connections\<close> to \<open>redis_client\<close>; the last field says
  whether \<open>self.redis\<close> is a client or \<open>None\<close>) and the Redis server it talks to.
  The server's keys come in three families, one field each:
  \<^item> \<open>connections_hash k\<close> is the hash \<open>session:{k}:connections\<close>, its fields in order;
    a key that does not exist is the empty hash, and a hash has each field once;
  \<^item> \<open>connection_session c\<close> is the string \<open>connection:{c}:session\<close>, a session id
    written by \<open>set\<close> and read back by \<open>int\<close>;
  \<^item> \<open>connection_count k\<close> is the counter \<open>session:{k}:connection_count\<close>.
  \<open>published\<close> is every message published so far, with the session of its channel
  \<open>session:{k}\<close>. \<open>redis_faults\<close> holds the outcomes of the Redis calls to come.
  Expiry is not modelled: no key times out between two calls.
\<close>

record redis_manager = sockets +
  local_connections :: "(string \<times> websocket) list"
  server_id :: string
  pubsub :: "pubsub option"
  initialized :: bool
  listener_task :: "task option"
  redis_client :: bool
  connections_hash :: "int \<Rightarrow> (string \<times> payload) list"
  connection_session :: "string \<rightharpoonup> int"
  connection_count :: "int \<rightharpoonup> int"
  published :: "(int \<times> payload) list"
  redis_faults :: "bool list"

text \<open>
  One call to the Redis client: \<open>AttributeError\<close> when \<open>self.redis\<close> is \<open>None\<close>, an
  error of the transport when the call is one that fails, the command's effect and
  reply otherwise.
\<close>

definition redis_call :: "(redis_manager \<Rightarrow> 'a \<times> redis_manager) \<Rightarrow> (redis_manager, 'a) action" where
  "redis_call command = (\<lambda>s.
     if \<not> redis_client s then (Inl AttributeError, s)
     else case next_fault (redis_faults s) of
       (True, fs) \<Rightarrow> (Inl RedisError, s\<lparr>redis_faults := fs\<rparr>)
     | (False, fs) \<Rightarrow> (case command (s\<lparr>redis_faults := fs\<rparr>) of (x, s') \<Rightarrow> (Inr x, s')))"

definition ping :: "(redis_manager, unit) action" where
  "ping = redis_call (\<lambda>s. ((), s))"

definition hset :: "int \<Rightarrow> string \<Rightarrow> payload \<Rightarrow> (redis_manager, unit) action" where
  "hset k field v = redis_call (\<lambda>s.
     ((), s\<lparr>connections_hash :=
              (connections_hash s)(k := AList.update field v (connections_hash s k))\<rparr>))"

definition hdel :: "int \<Rightarrow> string \<Rightarrow> (redis_manager, unit) action" where
  "hdel k field = redis_call (\<lambda>s.
     ((), s\<lparr>connections_hash :=
              (connections_hash s)(k := AList.delete field (connections_hash s k))\<rparr>))"

definition hlen :: "int \<Rightarrow> (redis_manager, nat) action" where
  "hlen k = redis_call (\<lambda>s. (length (connections_hash s k), s))"

definition hgetall :: "int \<Rightarrow> (redis_manager, (string \<times> payload) list) action" where
  "hgetall k = redis_call (\<lambda>s. (connections_hash s k, s))"

definition expire :: "(redis_manager, unit) action" where
  "expire = redis_call (\<lambda>s. ((), s))"

definition set_session :: "string \<Rightarrow> int \<Rightarrow> (redis_manager, unit) action" where
  "set_session c k = redis_call (\<lambda>s.
     ((), s\<lparr>connection_session := (connection_session s)(c \<mapsto> k)\<rparr>))"

definition get_session :: "string \<Rightarrow> (redis_manager, int option) action" where
  "get_session c = redis_call (\<lambda>s. (connection_session s c, s))"

definition delete_session :: "string \<Rightarrow> (redis_manager, unit) action" where
  "delete_session c = redis_call (\<lambda>s.
     ((), s\<lparr>connection_session := (connection_session s)(c := None)\<rparr>))"

text \<open>\<open>INCR\<close> and \<open>DECR\<close> take a key that does not exist as 0.\<close>

definition counter_value :: "int option \<Rightarrow> int" where
  "counter_value v = (case v of None \<Rightarrow> 0 | Some n \<Rightarrow> n)"

definition incr :: "int \<Rightarrow> (redis_manager, int) action" where
  "incr k = redis_call (\<lambda>s.
     (counter_value (connection_count s k) + 1,
      s\<lparr>connection_count := (connection_count s)(k \<mapsto> counter_value (connection_count s k) + 1)\<rparr>))"

definition decr :: "int \<Rightarrow> (redis_manager, int) action" where
  "decr k = redis_call (\<lambda>s.
     (counter_value (connection_count s k) - 1,
      s\<lparr>connection_count := (connection_count s)(k \<mapsto> counter_value (connection_count s k) - 1)\<rparr>))"

definition get_count :: "int \<Rightarrow> (redis_manager, int option) action" where
  "get_count k = redis_call (\<lambda>s. (connection_count s k, s))"

definition publish :: "int \<Rightarrow> payload \<Rightarrow> (redis_manager, unit) action" where
  "publish k data = redis_call (\<lambda>s. ((), s\<lparr>published := published s @ [(k, data)]\<rparr>))"

text \<open>The calls on the subscription object; they go to the server as well.\<close>

definition psubscribe :: "string \<Rightarrow> (redis_manager, unit) action" where
  "psubscribe pattern = (\<lambda>s.
     case pubsub s of
       None \<Rightarrow> (Inl AttributeError, s)
     | Some p \<Rightarrow>
         redis_call (\<lambda>s. ((), s\<lparr>pubsub := Some (PubSub (patterns p @ [pattern]) (closed p))\<rparr>)) s)"

definition pubsub_close :: "(redis_manager, unit) action" where
  "pubsub_close = (\<lambda>s.
     case pubsub s of
       None \<Rightarrow> (Inl AttributeError, s)
     | Some p \<Rightarrow> redis_call (\<lambda>s. ((), s\<lparr>pubsub := Some (PubSub [] True)\<rparr>)) s)"

text \<open>The manager as \<open>__init__\<close> leaves it, in front of a server with no keys.\<close>

definition new_manager :: "string \<Rightarrow> bool \<Rightarrow> bool list \<Rightarrow> bool list \<Rightarrow> redis_manager" where
  "new_manager sid client rfaults sfaults =
     \<lparr>socket_log = [], socket_faults = sfaults,
      local_connections = [], server_id = sid, pubsub = None, initialized = False,
      listener_task = None, redis_client = client,
      connections_hash = (\<lambda>k. []), connection_session = Map.empty,
      connection_count = Map.empty, published = [], redis_faults = rfaults\<rparr>"

definition initialize :: "(redis_manager, unit) action" where
  "initialize = (\<lambda>s.
     if initialized s then (Inr (), s)
     else if \<not> redis_client s then (Inl RuntimeError, s)
     else try_except
            (and_then ping (\<lambda>_.
             and_then (\<lambda>s. (Inr (), s\<lparr>pubsub := Some (PubSub [] False)\<rparr>)) (\<lambda>_.
             and_then (psubscribe ''session:*'') (\<lambda>_ s.
               (Inr (), s\<lparr>listener_task := Some Running, initialized := True\<rparr>)))))
            (\<lambda>e. raise e) s)"

text \<open>
  \<open>connect\<close>. \<open>now\<close> is the reading of the event loop's clock. The handshake is outside
  the \<open>try\<close>; the six calls to the server are inside, and the handler only logs.
\<close>

definition connection_info :: "string \<Rightarrow> int option \<Rightarrow> real \<Rightarrow> json" where
  "connection_info sid user_id now =
     JObj [(''server_id'', JStr sid),
           (''user_id'', (case user_id of None \<Rightarrow> JNull | Some u \<Rightarrow> JInt u)),
           (''connected_at'', JFloat now),
           (''status'', JStr ''active'')]"

definition redis_connect ::
  "websocket \<Rightarrow> string \<Rightarrow> int \<Rightarrow> int option \<Rightarrow> real \<Rightarrow> (redis_manager, unit) action" where
  "redis_connect ws connection_id session_id user_id now =
     and_then (accept ws) (\<lambda>_ s0.
       let s = s0\<lparr>local_connections := AList.update connection_id ws (local_connections s0)\<rparr>
       in try_except
            (and_then (hset session_id connection_id
                         (json_dumps (connection_info (server_id s) user_id now))) (\<lambda>_.
             and_then expire (\<lambda>_.
             and_then (set_session connection_id session_id) (\<lambda>_.
             and_then (incr session_id) (\<lambda>_.
             and_then expire (\<lambda>_.
             and_then (hlen session_id) (\<lambda>count. return ())))))))
            (\<lambda>e. return ()) s)"

text \<open>
  \<open>disconnect\<close>. A stored session id is a non-empty byte string, so \<open>if session_id_bytes\<close>
  is the test that the key exists.
\<close>

definition redis_disconnect :: "string \<Rightarrow> (redis_manager, unit) action" where
  "redis_disconnect connection_id = (\<lambda>s0.
     let s = s0\<lparr>local_connections := AList.delete connection_id (local_connections s0)\<rparr>
     in if \<not> initialized s then (Inr (), s)
        else try_except
               (and_then (get_session connection_id) (\<lambda>session_id_bytes.
                  case session_id_bytes of
                    None \<Rightarrow> return ()
                  | Some session_id \<Rightarrow>
                      and_then (hdel session_id connection_id) (\<lambda>_.
                      and_then (delete_session connection_id) (\<lambda>_.
                      and_then (decr session_id) (\<lambda>_.
                      and_then (hlen session_id) (\<lambda>count. return ()))))))
               (\<lambda>e. return ()) s)"

definition redis_get_session_connection_count :: "int \<Rightarrow> (redis_manager, nat) action" where
  "redis_get_session_connection_count session_id =
     try_except (hlen session_id) (\<lambda>e. return 0)"

text \<open>
  The first loop of \<open>_send_to_local_connections\<close>, over the items of the hash. The inner
  \<open>try\<close> holds \<open>json.loads\<close>, the \<open>.get\<close> (which only a dict has: anything else raises
  \<open>AttributeError\<close>) and the write; its handler marks the connection for removal.
\<close>

fun local_pass ::
  "message \<Rightarrow> (string \<times> payload) list \<Rightarrow> nat \<Rightarrow> string list \<Rightarrow> redis_manager
     \<Rightarrow> nat \<times> string list \<times> redis_manager" where
  "local_pass msg [] sent_count to_remove s = (sent_count, to_remove, s)"
| "local_pass msg ((connection_id, connection_info_str) # rest) sent_count to_remove s =
     (case json_loads connection_info_str of
        Inl e \<Rightarrow> local_pass msg rest sent_count (to_remove @ [connection_id]) s
      | Inr (JObj info) \<Rightarrow>
          if map_of info ''server_id'' = Some (JStr (server_id s))
          then (case map_of (local_connections s) connection_id of
                  Some ws \<Rightarrow>
                    (case send_json ws msg s of
                       (Inl e, s') \<Rightarrow> local_pass msg rest sent_count (to_remove @ [connection_id]) s'
                     | (Inr _, s') \<Rightarrow> local_pass msg rest (Suc sent_count) to_remove s')
                | None \<Rightarrow> local_pass msg rest sent_count (to_remove @ [connection_id]) s)
          else local_pass msg rest sent_count to_remove s
      | Inr _ \<Rightarrow> local_pass msg rest sent_count (to_remove @ [connection_id]) s)"

text \<open>\<open>for x in xs: await f(x)\<close>: an exception ends the loop.\<close>

fun for_each :: "('a \<Rightarrow> ('s, unit) action) \<Rightarrow> 'a list \<Rightarrow> ('s, unit) action" where
  "for_each f [] = return ()"
| "for_each f (x # xs) = and_then (f x) (\<lambda>_. for_each f xs)"

definition send_to_local_connections :: "int \<Rightarrow> message \<Rightarrow> (redis_manager, nat) action" where
  "send_to_local_connections session_id msg =
     try_except
       (and_then (hgetall session_id) (\<lambda>connections s.
          case local_pass msg connections 0 [] s of
            (sent_count, connections_to_remove, s') \<Rightarrow>
              and_then (for_each redis_disconnect connections_to_remove)
                (\<lambda>_. return sent_count) s'))
       (\<lambda>e. return 0)"

text \<open>
  \<open>send_to_session\<close>. A message is a dict of JSON values, so \<open>json.dumps\<close> goes
  through; everything after the test of \<open>_initialized\<close> is in one \<open>try\<close>.
\<close>

definition redis_send_to_session :: "int \<Rightarrow> message \<Rightarrow> (redis_manager, nat) action" where
  "redis_send_to_session session_id msg = (\<lambda>s.
     if \<not> initialized s then (Inr 0, s)
     else try_except
            (and_then (publish session_id
                         (json_dumps (JObj (AList.update ''server_id'' (JStr (server_id s)) msg)))) (\<lambda>published.
             and_then (send_to_local_connections session_id msg) (\<lambda>local_count.
             and_then (redis_get_session_connection_count session_id) (\<lambda>total_count.
               return total_count))))
            (\<lambda>e. return 0) s)"

text \<open>
  \<open>get_session_info\<close>. The counter, when its key exists, is a non-empty byte string,
  so \<open>get(...) or 0\<close> is 0 for a missing key only.
\<close>

definition get_session_info :: "int \<Rightarrow> (redis_manager, message) action" where
  "get_session_info session_id =
     try_except
       (and_then (hgetall session_id) (\<lambda>connections.
        and_then (get_count session_id) (\<lambda>connection_count s.
          (Inr [(''session_id'', JInt session_id),
                (''total_connections'', JInt (int (length connections))),
                (''connection_count'', JInt (counter_value connection_count)),
                (''local_connections'', JList (map (JStr \<circ> fst) (local_connections s))),
                (''server_id'', JStr (server_id s)),
                (''redis_connections'', JList (map (JStr \<circ> fst) connections))], s))))
       (\<lambda>e. return [])"


subsection \<open>The listener\<close>













datatype loop_status = Listening | Ended



subsection \<open>Teardown\<close>

text \<open>
  Cancelling the listener raises \<open>CancelledError\<close> where it waits, inside its two
  \<open>except Exception\<close> handlers; what comes out of them is what \<open>await self._listener_task\<close>
  raises in \<open>cleanup\<close>, whose handler takes \<open>CancelledError\<close> only.
\<close>

definition cancelled_listener :: "(redis_manager, loop_status) action" where
  "cancelled_listener =
     try_except (try_except (raise CancelledError) (\<lambda>e. return Listening)) (\<lambda>e. return Ended)"

definition await_cancelled :: "(redis_manager, unit) action" where
  "await_cancelled = (\<lambda>s.
     case cancelled_listener (s\<lparr>listener_task := Some Cancelled\<rparr>) of
       (Inl e, s') \<Rightarrow> if e = CancelledError then (Inr (), s') else (Inl e, s')
     | (Inr _, s') \<Rightarrow> (Inr (), s'))"

definition cleanup :: "(redis_manager, unit) action" where
  "cleanup =
     and_then (\<lambda>s. case listener_task s of
                 Some t \<Rightarrow> if \<not> task_done t then await_cancelled s else (Inr (), s)
               | None \<Rightarrow> (Inr (), s)) (\<lambda>_.
     and_then (\<lambda>s. if pubsub s \<noteq> None then try_except pubsub_close (\<lambda>e. return ()) s
                    else (Inr (), s)) (\<lambda>_ s.
       (Inr (), s\<lparr>initialized := False\<rparr>)))"


section \<open>Notions used in the statements\<close>

subsection \<open>WebSocketManager\<close>

text \<open>The operations of the public interface, and a run of them from a given state.\<close>

datatype ws_op =
    Connect websocket string int "int option"
  | Disconnect string int "int option"
  | SendToSession int message
  | SendToUser int message

fun apply_op :: "ws_op \<Rightarrow> ws_manager \<Rightarrow> ws_manager" where
  "apply_op (Connect ws c k u) s = snd (connect ws c k u s)"
| "apply_op (Disconnect c k u) s = disconnect c k u s"
| "apply_op (SendToSession k m) s = snd (send_to_session k m s)"
| "apply_op (SendToUser u m) s = snd (send_to_user u m s)"

definition no_empty_lists :: "ws_manager \<Rightarrow> bool" where
  "no_empty_lists s =
     (\<forall>k. session_connections s k \<noteq> Some [] \<and> user_connections s k \<noteq> Some [])"

text \<open>The connections of a list that have a socket in \<open>active_connections\<close>.\<close>

definition live_connections :: "string list \<Rightarrow> ws_manager \<Rightarrow> string list" where
  "live_connections cs s = filter (\<lambda>c. active_connections s c \<noteq> None) cs"

text \<open>The outcomes of the next \<open>n\<close> socket calls, \<open>True\<close> for one that goes through.\<close>

fun write_outcomes :: "nat \<Rightarrow> bool list \<Rightarrow> bool list" where
  "write_outcomes 0 fs = []"
| "write_outcomes (Suc n) fs = (\<not> fst (next_fault fs)) # write_outcomes n (snd (next_fault fs))"

text \<open>
  One write per live connection of the list, in order, and the connections among them
  whose write raises.
\<close>

definition attempted_writes ::
  "message \<Rightarrow> string list \<Rightarrow> ws_manager \<Rightarrow> (websocket \<times> message \<times> bool) list" where
  "attempted_writes msg cs s =
     (let live = live_connections cs s
      in map (\<lambda>(c, ok). (the (active_connections s c), msg, ok))
           (zip live (write_outcomes (length live) (socket_faults s))))"

definition failed_connections :: "string list \<Rightarrow> ws_manager \<Rightarrow> string list" where
  "failed_connections cs s =
     (let live = live_connections cs s
      in map fst (filter (\<lambda>(c, ok). \<not> ok)
                    (zip live (write_outcomes (length live) (socket_faults s)))))"

definition indexed_under :: "(int \<rightharpoonup> string list) \<Rightarrow> int \<Rightarrow> string list" where
  "indexed_under d k = (case d k of None \<Rightarrow> [] | Some cs \<Rightarrow> cs)"

text \<open>
  An example: one connection of user 7 on session 1, whose socket accepts the handshake
  and fails on the next write.
\<close>

definition ping_message :: message where
  "ping_message = [(''type'', JStr ''ping'')]"

definition one_dead_socket :: ws_manager where
  "one_dead_socket = snd (connect (WebSocket 1) ''c1'' 1 (Some 7) (init_manager [False, True]))"


subsection \<open>RedisWebSocketManager\<close>

text \<open>Every call to the server to come goes through.\<close>

definition store_up :: "redis_manager \<Rightarrow> bool" where
  "store_up s = (redis_client s \<and> True \<notin> set (redis_faults s))"

text \<open>
  The process that a hash field's value records as the owner of the connection, when
  the value is a JSON object with a string under \<open>server_id\<close>.
\<close>

definition recorded_owner :: "payload \<Rightarrow> string option" where
  "recorded_owner v =
     (case v of
        Text (JObj info) \<Rightarrow> (case map_of info ''server_id'' of Some (JStr sid) \<Rightarrow> Some sid | _ \<Rightarrow> None)
      | _ \<Rightarrow> None)"

text \<open>
  An entry of the directory is stale on this process when it records this process as
  its owner and the connection is not in the local registry; it is foreign when it
  records another process.
\<close>

definition stale :: "redis_manager \<Rightarrow> string \<times> payload \<Rightarrow> bool" where
  "stale s e = (recorded_owner (snd e) = Some (server_id s) \<and> map_of (local_connections s) (fst e) = None)"

definition foreign :: "redis_manager \<Rightarrow> string \<times> payload \<Rightarrow> bool" where
  "foreign s e = (case recorded_owner (snd e) of None \<Rightarrow> False | Some sid \<Rightarrow> sid \<noteq> server_id s)"

text \<open>
  The sockets that the local pass writes to: those of the entries that record this
  process and are in the local registry, in the order of the hash; and the writes, one
  per such socket.
\<close>

definition deliverable :: "(string \<times> payload) list \<Rightarrow> redis_manager \<Rightarrow> websocket list" where
  "deliverable es s =
     concat (map (\<lambda>e. if recorded_owner (snd e) = Some (server_id s)
                       then (case map_of (local_connections s) (fst e) of None \<Rightarrow> [] | Some ws \<Rightarrow> [ws])
                       else []) es)"

definition local_writes ::
  "message \<Rightarrow> (string \<times> payload) list \<Rightarrow> redis_manager \<Rightarrow> (websocket \<times> message \<times> bool) list" where
  "local_writes msg es s =
     map (\<lambda>(ws, ok). (ws, msg, ok))
       (zip (deliverable es s) (write_outcomes (length (deliverable es s)) (socket_faults s)))"

text \<open>What one entry of the hash leads to in the local pass.\<close>

datatype verdict = Skip | Remove | Write websocket

definition verdict :: "redis_manager \<Rightarrow> string \<times> payload \<Rightarrow> verdict" where
  "verdict s e =
     (if recorded_owner (snd e) = Some (server_id s)
      then (case map_of (local_connections s) (fst e) of None \<Rightarrow> Remove | Some ws \<Rightarrow> Write ws)
      else (case snd e of Text (JObj info) \<Rightarrow> Skip | _ \<Rightarrow> Remove))"

text \<open>The connections that the local pass marks for removal, given the outcomes of the writes.\<close>

fun pass_removed :: "redis_manager \<Rightarrow> (string \<times> payload) list \<Rightarrow> bool list \<Rightarrow> string list" where
  "pass_removed s [] fs = []"
| "pass_removed s (e # es) fs =
     (case verdict s e of
        Skip \<Rightarrow> pass_removed s es fs
      | Remove \<Rightarrow> fst e # pass_removed s es fs
      | Write ws \<Rightarrow> (if fst (next_fault fs) then [fst e] else []) @ pass_removed s es (drop 1 fs))"


text \<open>
  The manager after \<open>cleanup\<close>: a running listener is cancelled, a subscription object
  is closed when the call to the server goes through, and the flag is down.
\<close>

definition after_cleanup :: "redis_manager \<Rightarrow> redis_manager" where
  "after_cleanup s =
     (let s1 = (if listener_task s = Some Running then s\<lparr>listener_task := Some Cancelled\<rparr> else s);
          s2 = (case pubsub s1 of
                  None \<Rightarrow> s1
                | Some p \<Rightarrow>
                    if redis_client s1
                    then (if fst (next_fault (redis_faults s1))
                          then s1\<lparr>redis_faults := drop 1 (redis_faults s1)\<rparr>
                          else s1\<lparr>redis_faults := drop 1 (redis_faults s1),
                                 pubsub := Some (PubSub [] True)\<rparr>)
                    else s1)
      in s2\<lparr>initialized := False\<rparr>)"


subsection \<open>Examples\<close>

text \<open>
  A manager \<open>srv1\<close> after \<open>initialize\<close>; the same with one connection \<open>c1\<close> on session 1;
  that state when the next call to the server fails; a second process \<open>srv2\<close> in front
  of the same store; a store where \<open>c1\<close> has left the local registry and a connection
  of \<open>srv2\<close> is registered as well; and what is left of a \<open>connect\<close> whose \<open>set\<close> failed,
  followed by \<open>disconnect\<close>: the hash field stays, with no reverse mapping.
\<close>

definition srv1_ready :: redis_manager where
  "srv1_ready = snd (initialize (new_manager ''srv1'' True [] []))"

definition one_local_connection :: redis_manager where
  "one_local_connection = snd (redis_connect (WebSocket 1) ''c1'' 1 None 0 srv1_ready)"

definition broker_down :: redis_manager where
  "broker_down = one_local_connection\<lparr>redis_faults := [True]\<rparr>"


definition stale_and_foreign :: redis_manager where
  "stale_and_foreign =
     (snd (redis_disconnect ''c1'' broker_down))
       \<lparr>connections_hash := (connections_hash one_local_connection)
          (1 := connections_hash one_local_connection 1 @
                  [(''c9'', json_dumps (connection_info ''srv2'' None 0))]),
        connection_session := (connection_session one_local_connection)(''c9'' \<mapsto> 1),
        connection_count := (connection_count one_local_connection)(1 \<mapsto> 2)\<rparr>"

definition orphan_entry :: redis_manager where
  "orphan_entry =
     snd (redis_disconnect ''c1''
            (snd (redis_connect (WebSocket 1) ''c1'' 1 None 0
                    (srv1_ready\<lparr>redis_faults := [False, False, True]\<rparr>))))"

definition c1_info :: payload where
  "c1_info = json_dumps (connection_info ''srv1'' None 0)"

definition c9_info :: payload where
  "c9_info = json_dumps (connection_info ''srv2'' None 0)"




section \<open>Notions used in the proofs\<close>

text \<open>The \<open>try\<close> body of \<open>disconnect\<close>.\<close>

definition disconnect_body :: "string \<Rightarrow> (redis_manager, unit) action" where
  "disconnect_body c =
     and_then (get_session c) (\<lambda>session_id_bytes.
                  case session_id_bytes of
                    None \<Rightarrow> return ()
                  | Some session_id \<Rightarrow>
                      and_then (hdel session_id c) (\<lambda>_.
                      and_then (delete_session c) (\<lambda>_.
                      and_then (decr session_id) (\<lambda>_.
                      and_then (hlen session_id) (\<lambda>count. return ())))))"

text \<open>Actions that raise nothing but \<open>Exception\<close>s, and actions that keep a relation.\<close>

definition safe :: "('s, 'a) action \<Rightarrow> bool" where
  "safe m = (\<forall>s e s'. m s = (Inl e, s') \<longrightarrow> is_Exception e)"

definition never_raises :: "('s, 'a) action \<Rightarrow> bool" where
  "never_raises m = (\<forall>s. \<exists>x s'. m s = (Inr x, s'))"

definition preserves :: "('s \<Rightarrow> 's \<Rightarrow> bool) \<Rightarrow> ('s, 'a) action \<Rightarrow> bool" where
  "preserves R m = (\<forall>s r s'. m s = (r, s') \<longrightarrow> R s s')"

text \<open>
  What no operation on connections and messages changes of the manager and of the
  calls to come: the calls are consumed from the front.
\<close>

definition steady :: "redis_manager \<Rightarrow> redis_manager \<Rightarrow> bool" where
  "steady s s' =
     (redis_client s' = redis_client s \<and> initialized s' = initialized s \<and>
      server_id s' = server_id s \<and> pubsub s' = pubsub s \<and> listener_task s' = listener_task s \<and>
      (\<exists>n. redis_faults s' = drop n (redis_faults s)))"

text \<open>The entries of a connection, in every hash, and its reverse mapping are the same.\<close>

definition keeps :: "string \<Rightarrow> redis_manager \<Rightarrow> redis_manager \<Rightarrow> bool" where
  "keeps c s s' =
     (connection_session s' c = connection_session s c \<and>
      (\<forall>k. filter (\<lambda>e. fst e = c) (connections_hash s' k) =
           filter (\<lambda>e. fst e = c) (connections_hash s k)))"


section \<open>WebSocketManager: proofs\<close>

lemma index_append_nonempty: "d k' \<noteq> Some [] \<Longrightarrow> index_append k c d k' \<noteq> Some []"
  by (simp add: index_append_def)

lemma index_remove_nonempty: "d k' \<noteq> Some [] \<Longrightarrow> index_remove k c d k' \<noteq> Some []"
  by (simp add: index_remove_def Let_def split: option.splits)

lemma connect_no_empty: "no_empty_lists s \<Longrightarrow> no_empty_lists (snd (connect ws c k u s))"
  by (auto simp: no_empty_lists_def connect_def and_then_def accept_def Let_def index_append_nonempty
      split: prod.splits bool.splits)

lemma disconnect_no_empty: "no_empty_lists s \<Longrightarrow> no_empty_lists (disconnect c k u s)"
  by (auto simp: no_empty_lists_def disconnect_def Let_def index_remove_nonempty)

lemma send_json_indexes:
  "send_json ws m s = (r, s') \<Longrightarrow>
     active_connections s' = active_connections s \<and>
     session_connections s' = session_connections s \<and>
     user_connections s' = user_connections s"
  by (auto simp: send_json_def split: prod.splits bool.splits)

lemma session_pass_indexes:
  "session_pass m cs n rem s = (n', rem', s') \<Longrightarrow>
     active_connections s' = active_connections s \<and>
     session_connections s' = session_connections s \<and>
     user_connections s' = user_connections s"
proof (induction cs arbitrary: n rem s)
  case Nil
  then show ?case by simp
next
  case (Cons c cs)
  show ?case
  proof (cases "active_connections s c")
    case None
    with Cons show ?thesis by simp
  next
    case (Some ws)
    obtain r s1 where sj: "send_json ws m s = (r, s1)" by (cases "send_json ws m s")
    note ix = send_json_indexes [OF sj]
    from Cons.prems Some sj
    obtain n1 rem1 where "session_pass m cs n1 rem1 s1 = (n', rem', s')"
      by (auto split: sum.splits option.splits)
    from Cons.IH [OF this] ix show ?thesis by simp
  qed
qed

lemma user_pass_indexes:
  "user_pass m cs n rem s = (n', rem', s') \<Longrightarrow>
     active_connections s' = active_connections s \<and>
     session_connections s' = session_connections s \<and>
     user_connections s' = user_connections s"
proof (induction cs arbitrary: n rem s)
  case Nil
  then show ?case by simp
next
  case (Cons c cs)
  show ?case
  proof (cases "active_connections s c")
    case None
    with Cons show ?thesis by simp
  next
    case (Some ws)
    obtain r s1 where sj: "send_json ws m s = (r, s1)" by (cases "send_json ws m s")
    note ix = send_json_indexes [OF sj]
    from Cons.prems Some sj
    obtain n1 rem1 where "user_pass m cs n1 rem1 s1 = (n', rem', s')"
      by (auto split: sum.splits)
    from Cons.IH [OF this] ix show ?thesis by simp
  qed
qed

lemma fold_disconnect_no_empty:
  "no_empty_lists s \<Longrightarrow> no_empty_lists (fold (\<lambda>c. disconnect c k u) cs s)"
  by (induction cs arbitrary: s) (simp_all add: disconnect_no_empty)

lemma send_to_session_no_empty:
  "no_empty_lists s \<Longrightarrow> no_empty_lists (snd (send_to_session k m s))"
proof (cases "session_connections s k")
  case None
  assume "no_empty_lists s"
  with None show ?thesis by (simp add: send_to_session_def)
next
  case (Some cs)
  assume inv: "no_empty_lists s"
  obtain n rem s1 where p: "session_pass m cs 0 [] s = (n, rem, s1)"
    by (cases "session_pass m cs 0 [] s") auto
  from session_pass_indexes [OF p] inv have "no_empty_lists s1"
    by (simp add: no_empty_lists_def)
  then have "no_empty_lists (fold (\<lambda>c. disconnect c k None) rem s1)"
    by (rule fold_disconnect_no_empty)
  with Some p show ?thesis by (simp add: send_to_session_def)
qed

lemma send_to_user_no_empty:
  "no_empty_lists s \<Longrightarrow> no_empty_lists (snd (send_to_user k m s))"
proof (cases "user_connections s k")
  case None
  assume "no_empty_lists s"
  with None show ?thesis by (simp add: send_to_user_def)
next
  case (Some cs)
  assume inv: "no_empty_lists s"
  obtain n rem s1 where p: "user_pass m cs 0 [] s = (n, rem, s1)"
    by (cases "user_pass m cs 0 [] s") auto
  from user_pass_indexes [OF p] inv have "no_empty_lists s1"
    by (simp add: no_empty_lists_def)
  with Some p show ?thesis by (simp add: send_to_user_def)
qed

lemma apply_op_no_empty: "no_empty_lists s \<Longrightarrow> no_empty_lists (apply_op x s)"
  by (cases x)
     (simp_all add: connect_no_empty disconnect_no_empty send_to_session_no_empty
        send_to_user_no_empty)

lemma fold_apply_op_no_empty: "no_empty_lists s \<Longrightarrow> no_empty_lists (fold apply_op ops s)"
  by (induction ops arbitrary: s) (simp_all add: apply_op_no_empty)

lemma init_no_empty: "no_empty_lists (init_manager fs)"
  by (simp add: no_empty_lists_def init_manager_def)

text \<open>
  C6. From the empty manager, and from any state that has the property, every sequence
  of \<open>connect\<close>, \<open>disconnect\<close>, \<open>send_to_session\<close> and \<open>send_to_user\<close> leaves
  \<open>session_connections\<close> and \<open>user_connections\<close> without a key that maps to the empty
  list.
\<close>

theorem no_empty_lists_preserved: "no_empty_lists (init_manager fs) \<and>
  (no_empty_lists s \<longrightarrow> no_empty_lists (fold apply_op ops s))"
  by (simp add: init_no_empty fold_apply_op_no_empty)

theorem no_empty_lists_preserved_witness:
  "no_empty_lists (init_manager [False, True]) \<and>
   no_empty_lists (fold apply_op [Connect (WebSocket 1) ''c1'' 1 (Some 7), SendToSession 1 ping_message, Disconnect ''c1'' 1 (Some 7)] (init_manager [False, True]))"
  using no_empty_lists_preserved [of "[False, True]" "init_manager [False, True]" "[Connect (WebSocket 1) ''c1'' 1 (Some 7), SendToSession 1 ping_message, Disconnect ''c1'' 1 (Some 7)]"]
  by simp

lemma snd_next_fault: "snd (next_fault fs) = drop 1 fs"
  by (cases fs) simp_all

lemma live_Cons_dead: "active_connections s c = None \<Longrightarrow> live_connections (c # cs) s = live_connections cs s"
  by (simp add: live_connections_def)

lemma live_Cons_live: "active_connections s c = Some ws \<Longrightarrow> live_connections (c # cs) s = c # live_connections cs s"
  by (simp add: live_connections_def)

lemma live_cong: "active_connections s' = active_connections s \<Longrightarrow> live_connections cs s' = live_connections cs s"
  by (simp add: live_connections_def)

lemma live_upd [simp]:
  "live_connections cs (s\<lparr>socket_faults := a\<rparr>) = live_connections cs s"
  "live_connections cs (s\<lparr>socket_log := b\<rparr>) = live_connections cs s"
  by (simp_all add: live_connections_def)

lemma send_json_eq:
  "send_json ws m s =
     ((if fst (next_fault (socket_faults s)) then Inl SocketError else Inr ()),
      s\<lparr>socket_faults := drop 1 (socket_faults s),
        socket_log := socket_log s @ [(ws, m, \<not> fst (next_fault (socket_faults s)))]\<rparr>)"
  by (cases "socket_faults s") (auto simp: send_json_def)

lemma session_pass_closed:
  "session_pass m cs n rem s =
     (n + length (filter id (write_outcomes (length (live_connections cs s)) (socket_faults s))),
      rem @ (if map_of m ''type'' = None then live_connections cs s else failed_connections cs s),
      s\<lparr>socket_faults := drop (length (live_connections cs s)) (socket_faults s),
        socket_log := socket_log s @ attempted_writes m cs s\<rparr>)"
proof (induction cs arbitrary: n rem s)
  case Nil
  then show ?case by (simp add: live_connections_def failed_connections_def attempted_writes_def)
next
  case (Cons c cs)
  show ?case
  proof (cases "active_connections s c")
    case None
    then show ?thesis
      using Cons.IH [of n rem s]
      by (simp add: failed_connections_def attempted_writes_def live_Cons_dead)
  next
    case (Some ws)
    then show ?thesis
      by (simp add: Cons.IH send_json_eq snd_next_fault live_Cons_live failed_connections_def
          attempted_writes_def Let_def split: option.splits)
  qed
qed

lemma disconnect_None_fields:
  "active_connections (disconnect c k None s) = (active_connections s)(c := None)"
  "session_connections (disconnect c k None s) = index_remove k c (session_connections s)"
  "user_connections (disconnect c k None s) = user_connections s"
  "socket_log (disconnect c k None s) = socket_log s"
  "socket_faults (disconnect c k None s) = socket_faults s"
  by (simp_all add: disconnect_def Let_def)

lemma fold_disconnect_active:
  "active_connections (fold (\<lambda>c. disconnect c k None) rem s) c =
     (if c \<in> set rem then None else active_connections s c)"
  by (induction rem arbitrary: s) (simp_all add: disconnect_None_fields)

lemma fold_disconnect_frame:
  "user_connections (fold (\<lambda>c. disconnect c k None) rem s) = user_connections s \<and>
   socket_log (fold (\<lambda>c. disconnect c k None) rem s) = socket_log s \<and>
   socket_faults (fold (\<lambda>c. disconnect c k None) rem s) = socket_faults s"
  by (induction rem arbitrary: s) (simp_all add: disconnect_None_fields)

lemma index_remove_other: "k' \<noteq> k \<Longrightarrow> index_remove k c d k' = d k'"
  by (simp add: index_remove_def Let_def split: option.splits)

lemma index_remove_same:
  "index_remove k c d k =
     (case d k of None \<Rightarrow> None
      | Some cs \<Rightarrow> if remove1 c cs = [] then None else Some (remove1 c cs))"
  by (simp add: index_remove_def Let_def remove1_idem split: option.splits)

lemma fold_disconnect_sessions_other:
  "k' \<noteq> k \<Longrightarrow>
   session_connections (fold (\<lambda>c. disconnect c k None) rem s) k' = session_connections s k'"
  by (induction rem arbitrary: s) (simp_all add: disconnect_None_fields index_remove_other)

lemma fold_remove1_Nil: "fold remove1 rem [] = []"
  by (induction rem) simp_all

lemma fold_disconnect_sessions_same:
  "rem \<noteq> [] \<Longrightarrow> session_connections s k = Some cs \<Longrightarrow>
   session_connections (fold (\<lambda>c. disconnect c k None) rem s) k =
     (if fold remove1 rem cs = [] then None else Some (fold remove1 rem cs))"
proof (induction rem arbitrary: s cs)
  case Nil
  then show ?case by simp
next
  case (Cons c rem)
  let ?s1 = "disconnect c k None s"
  show ?case
  proof (cases "remove1 c cs = []")
    case True
    then have "session_connections ?s1 k = None"
      using Cons.prems by (simp add: disconnect_None_fields index_remove_same)
    moreover have "session_connections (fold (\<lambda>c. disconnect c k None) rem s') k = None"
      if "session_connections s' k = None" for s'
      using that by (induction rem arbitrary: s') (simp_all add: disconnect_None_fields index_remove_same)
    ultimately show ?thesis using True by (simp add: fold_remove1_Nil)
  next
    case False
    then have s1: "session_connections ?s1 k = Some (remove1 c cs)"
      using Cons.prems by (simp add: disconnect_None_fields index_remove_same)
    show ?thesis
    proof (cases "rem = []")
      case True
      with s1 False show ?thesis by simp
    next
      case False
      from Cons.IH [OF False s1] show ?thesis by simp
    qed
  qed
qed

lemma set_fold_remove1_distinct:
  "distinct cs \<Longrightarrow> set (fold remove1 rem cs) = set cs - set rem"
  by (induction rem arbitrary: cs) (auto simp: distinct_remove1)

lemma removed_not_indexed:
  assumes "session_connections s k = Some cs" "distinct cs" "c \<in> set rem"
  shows "c \<notin> set (indexed_under (session_connections (fold (\<lambda>c. disconnect c k None) rem s)) k)"
proof -
  from assms(3) have ne: "rem \<noteq> []" by auto
  show ?thesis
    using fold_disconnect_sessions_same [OF ne assms(1)] assms(2,3)
    by (simp add: indexed_under_def set_fold_remove1_distinct)
qed

lemma failed_subset: "set (failed_connections cs s) \<subseteq> set (live_connections cs s)"
  unfolding failed_connections_def Let_def
  by (auto dest: set_zip_leftD)

lemma length_write_outcomes [simp]: "length (write_outcomes n fs) = n"
  by (induction n arbitrary: fs) simp_all

lemma count_ok:
  "length xs = length ys \<Longrightarrow>
   length (filter (\<lambda>(ws, msg, ok). ok) (map (\<lambda>(c, ok). (f c, m, ok)) (zip xs ys))) =
   length (filter id ys)"
  by (induction xs ys rule: list_induct2) auto

text \<open>
  C5, as amended. For a session indexed with the list \<open>cs\<close>: the pass leaves the three
  dictionaries as they are and makes one write per connection of \<open>cs\<close> that has a
  socket; \<open>send_to_session\<close> returns the number of writes that went through; every
  connection whose write raised is among those unregistered after the pass, each of
  which is then out of \<open>active_connections\<close> and, when the list has no connection
  twice, out of the session's list. \<open>user_connections\<close> is left as it was.
\<close>

theorem send_to_session_pass_then_unregister:
  assumes "session_connections s k = Some cs"
  shows "case session_pass m cs 0 [] s of (sent_count, to_remove, s1) \<Rightarrow>
           active_connections s1 = active_connections s
         \<and> session_connections s1 = session_connections s
         \<and> user_connections s1 = user_connections s
         \<and> socket_log s1 = socket_log s @ attempted_writes m cs s
         \<and> sent_count = length (filter (\<lambda>(ws, msg, ok). ok) (attempted_writes m cs s))
         \<and> set (failed_connections cs s) \<subseteq> set to_remove
         \<and> send_to_session k m s = (sent_count, fold (\<lambda>c. disconnect c k None) to_remove s1)
         \<and> (let s' = snd (send_to_session k m s)
            in socket_log s' = socket_log s1
             \<and> user_connections s' = user_connections s
             \<and> (\<forall>c \<in> set to_remove.
                   active_connections s' c = None
                 \<and> (distinct cs \<longrightarrow> c \<notin> set (indexed_under (session_connections s') k))))"
proof -
  obtain n rem s1 where p: "session_pass m cs 0 [] s = (n, rem, s1)"
    by (cases "session_pass m cs 0 [] s") auto
  note cl = p [unfolded session_pass_closed [of m cs 0 "[]" s]]
  from cl have n: "n = length (filter id (write_outcomes (length (live_connections cs s)) (socket_faults s)))"
    and rem: "rem = (if map_of m ''type'' = None then live_connections cs s else failed_connections cs s)"
    and s1: "s1 = s\<lparr>socket_faults := drop (length (live_connections cs s)) (socket_faults s),
        socket_log := socket_log s @ attempted_writes m cs s\<rparr>"
    by simp_all
  have cnt: "length (filter (\<lambda>(ws, msg, ok). ok) (attempted_writes m cs s)) = n"
    unfolding n attempted_writes_def Let_def by (rule count_ok) simp
  have sub: "set (failed_connections cs s) \<subseteq> set rem"
    using failed_subset [of cs s] by (simp add: rem)
  have sess1: "session_connections s1 k = Some cs" using assms by (simp add: s1)
  have send: "send_to_session k m s = (n, fold (\<lambda>c. disconnect c k None) rem s1)"
    using assms p by (simp add: send_to_session_def)
  let ?s' = "fold (\<lambda>c. disconnect c k None) rem s1"
  have fr: "socket_log ?s' = socket_log s1" "user_connections ?s' = user_connections s"
    using fold_disconnect_frame [of k rem s1] by (simp_all add: s1)
  have gone: "active_connections ?s' c = None
      \<and> (distinct cs \<longrightarrow> c \<notin> set (indexed_under (session_connections ?s') k))"
    if "c \<in> set rem" for c
    using that removed_not_indexed [OF sess1 _ that] by (simp add: fold_disconnect_active)
  show ?thesis
    unfolding p prod.case send snd_conv Let_def
    using cnt sub fr gone by (simp add: s1)
qed

lemma one_dead_socket_eq:
  "one_dead_socket =
     \<lparr>socket_log = [], socket_faults = [True],
      active_connections = [''c1'' \<mapsto> WebSocket 1], session_connections = [1 \<mapsto> [''c1'']],
      user_connections = [7 \<mapsto> [''c1'']]\<rparr>"
  by (simp add: one_dead_socket_def connect_def and_then_def accept_def init_manager_def
      index_append_def Let_def)

lemma send_one_dead_socket:
  "send_to_session 1 ping_message one_dead_socket =
     (0, \<lparr>socket_log = [(WebSocket 1, ping_message, False)], socket_faults = [],
           active_connections = Map.empty, session_connections = Map.empty,
           user_connections = [7 \<mapsto> [''c1'']]\<rparr>)"
  by (simp add: one_dead_socket_eq send_to_session_def send_json_def disconnect_def
      index_remove_def Let_def)

text \<open>
  C5 as stated fails on the user index: the only write raises, and the connection is
  still listed under its user after the call.
\<close>

theorem failed_connection_stays_under_user:
  "socket_log (snd (send_to_session 1 ping_message one_dead_socket)) = [(WebSocket 1, ping_message, False)] \<and>
   user_connections (snd (send_to_session 1 ping_message one_dead_socket)) 7 = Some [''c1'']"
  by (simp add: send_one_dead_socket)

theorem send_to_session_pass_then_unregister_witness:
  "session_connections one_dead_socket 1 = Some [''c1''] \<and>
   send_to_session 1 ping_message one_dead_socket =
     (0, fold (\<lambda>c. disconnect c 1 None) [''c1'']
           (one_dead_socket\<lparr>socket_faults := [], socket_log := [(WebSocket 1, ping_message, False)]\<rparr>)) \<and>
   active_connections (snd (send_to_session 1 ping_message one_dead_socket)) ''c1'' = None \<and>
   ''c1'' \<notin> set (indexed_under (session_connections (snd (send_to_session 1 ping_message one_dead_socket))) 1)"
proof -
  have h: "session_connections one_dead_socket 1 = Some [''c1'']"
    by (simp add: one_dead_socket_eq)
  have p: "session_pass ping_message [''c1''] 0 [] one_dead_socket =
      (0, [''c1''], one_dead_socket\<lparr>socket_faults := [], socket_log := [(WebSocket 1, ping_message, False)]\<rparr>)"
    by (simp add: one_dead_socket_eq send_json_def)
  from send_to_session_pass_then_unregister [OF h, of ping_message, unfolded p prod.case Let_def]
  have send: "send_to_session 1 ping_message one_dead_socket =
      (0, fold (\<lambda>c. disconnect c 1 None) [''c1'']
           (one_dead_socket\<lparr>socket_faults := [], socket_log := [(WebSocket 1, ping_message, False)]\<rparr>))"
    and gone: "\<forall>c \<in> set [''c1''].
        active_connections (snd (send_to_session 1 ping_message one_dead_socket)) c = None \<and>
        (distinct [''c1''] \<longrightarrow>
           c \<notin> set (indexed_under (session_connections (snd (send_to_session 1 ping_message one_dead_socket))) 1))"
    by blast+
  from gone have "active_connections (snd (send_to_session 1 ping_message one_dead_socket)) ''c1'' = None"
    and "''c1'' \<notin> set (indexed_under (session_connections (snd (send_to_session 1 ping_message one_dead_socket))) 1)"
    by simp_all
  with h send show ?thesis by blast
qed

lemma user_zero_connect: "user_connections s 0 = None \<Longrightarrow> user_connections (snd (connect ws c k u s)) 0 = None"
  by (cases u) (auto simp: connect_def and_then_def accept_def Let_def index_append_def
      split: prod.splits bool.splits)

lemma user_zero_disconnect: "user_connections s 0 = None \<Longrightarrow> user_connections (disconnect c k u s) 0 = None"
  by (cases u) (auto simp: disconnect_def Let_def index_remove_other)

lemma send_to_session_users: "user_connections (snd (send_to_session k m s)) = user_connections s"
proof (cases "session_connections s k")
  case None
  then show ?thesis by (simp add: send_to_session_def)
next
  case (Some cs)
  obtain n rem s1 where p: "session_pass m cs 0 [] s = (n, rem, s1)"
    by (cases "session_pass m cs 0 [] s") auto
  from session_pass_indexes [OF p] fold_disconnect_frame [of k rem s1] Some p
  show ?thesis by (simp add: send_to_session_def)
qed

lemma send_to_user_users: "user_connections (snd (send_to_user k m s)) = user_connections s"
proof (cases "user_connections s k")
  case None
  then show ?thesis by (simp add: send_to_user_def)
next
  case (Some cs)
  obtain n rem s1 where p: "user_pass m cs 0 [] s = (n, rem, s1)"
    by (cases "user_pass m cs 0 [] s") auto
  from user_pass_indexes [OF p] Some p
  show ?thesis by (simp add: send_to_user_def)
qed

lemma user_zero_apply_op: "user_connections s 0 = None \<Longrightarrow> user_connections (apply_op x s) 0 = None"
  by (cases x) (simp_all add: user_zero_connect user_zero_disconnect send_to_session_users send_to_user_users)

lemma user_zero_fold: "user_connections s 0 = None \<Longrightarrow> user_connections (fold apply_op ops s) 0 = None"
  by (induction ops arbitrary: s) (simp_all add: user_zero_apply_op)

lemma user_zero_reachable: "user_connections (fold apply_op ops (init_manager fs)) 0 = None"
  by (rule user_zero_fold) (simp add: init_manager_def)

text \<open>
  C10. A \<open>user_id\<close> of 0 is taken as no \<open>user_id\<close>: \<open>connect\<close> and \<open>disconnect\<close> do
  with it what they do with \<open>None\<close> and leave \<open>user_connections\<close> unchanged; after any
  sequence of operations from the empty manager nothing is indexed under user 0, and
  \<open>send_to_user 0\<close> returns 0 without a write or any other change.
\<close>

theorem user_id_zero_is_absent:
  "connect ws c k (Some 0) s = connect ws c k None s
   \<and> user_connections (snd (connect ws c k (Some 0) s)) = user_connections s
   \<and> disconnect c k (Some 0) s = disconnect c k None s
   \<and> user_connections (disconnect c k (Some 0) s) = user_connections s
   \<and> user_connections (fold apply_op ops (init_manager fs)) 0 = None
   \<and> send_to_user 0 m (fold apply_op ops (init_manager fs)) = (0, fold apply_op ops (init_manager fs))"
proof -
  have "user_connections (snd (connect ws c k (Some 0) s)) = user_connections s"
    by (auto simp: connect_def and_then_def accept_def split: prod.splits bool.splits)
  moreover have "send_to_user 0 m (fold apply_op ops (init_manager fs)) = (0, fold apply_op ops (init_manager fs))"
    by (simp add: send_to_user_def user_zero_reachable)
  ultimately show ?thesis
    by (simp add: connect_def disconnect_def user_zero_reachable)
qed



section \<open>RedisWebSocketManager: proofs\<close>

lemma safe_return [simp]: "safe (return x)"
  by (simp add: safe_def return_def)

lemma safe_raise [simp]: "is_Exception e \<Longrightarrow> safe (raise e)"
  by (simp add: safe_def raise_def)

lemma safe_and_then: "safe m \<Longrightarrow> (\<And>x. safe (f x)) \<Longrightarrow> safe (and_then m f)"
  unfolding safe_def and_then_def
  by (auto split: prod.splits sum.splits)

lemma safe_try_except: "safe m \<Longrightarrow> (\<And>e. safe (h e)) \<Longrightarrow> safe (try_except m h)"
  unfolding safe_def try_except_def
  by (auto split: prod.splits sum.splits if_splits)

lemma safe_redis_call [simp]: "safe (redis_call c)"
  unfolding safe_def redis_call_def
  by (auto split: prod.splits bool.splits if_splits)

lemma never_raises_return [simp]: "never_raises (return x)"
  by (simp add: never_raises_def return_def)

lemma never_raises_and_then: "never_raises m \<Longrightarrow> (\<And>x. never_raises (f x)) \<Longrightarrow> never_raises (and_then m f)"
  unfolding never_raises_def and_then_def
proof (intro allI)
  fix s
  assume m: "\<forall>s. \<exists>x s'. m s = (Inr x, s')" and f: "\<And>x. \<forall>s. \<exists>y s'. f x s = (Inr y, s')"
  from m obtain x s1 where 1: "m s = (Inr x, s1)" by blast
  from f [of x] obtain y s2 where 2: "f x s1 = (Inr y, s2)" by blast
  show "\<exists>x s'. (case m s of (Inl e, s') \<Rightarrow> (Inl e, s') | (Inr x, s') \<Rightarrow> f x s') = (Inr x, s')"
    using 1 2 by simp
qed

lemma never_raises_try_except: "safe m \<Longrightarrow> (\<And>e. never_raises (h e)) \<Longrightarrow> never_raises (try_except m h)"
  unfolding never_raises_def safe_def try_except_def
proof (intro allI)
  fix s
  assume m: "\<forall>s e s'. m s = (Inl e, s') \<longrightarrow> is_Exception e" and h: "\<And>e. \<forall>s. \<exists>y s'. h e s = (Inr y, s')"
  obtain r s1 where 1: "m s = (r, s1)" by (cases "m s")
  show "\<exists>x s'. (case m s of (Inl e, s') \<Rightarrow> if is_Exception e then h e s' else (Inl e, s')
         | (Inr x, s') \<Rightarrow> (Inr x, s')) = (Inr x, s')"
  proof (cases r)
    case (Inl e)
    with m 1 have "is_Exception e" by blast
    moreover from h [of e] obtain y s2 where "h e s1 = (Inr y, s2)" by blast
    ultimately show ?thesis using 1 Inl by simp
  next
    case (Inr x)
    with 1 show ?thesis by simp
  qed
qed

lemmas redis_commands = ping_def hset_def hdel_def hlen_def hgetall_def expire_def set_session_def
  get_session_def delete_session_def incr_def decr_def get_count_def publish_def

lemma safe_commands [simp]:
  "safe ping" "safe (hset k f v)" "safe (hdel k f)" "safe (hlen k)" "safe (hgetall k)" "safe expire"
  "safe (set_session c k)" "safe (get_session c)" "safe (delete_session c)" "safe (incr k)"
  "safe (decr k)" "safe (get_count k)" "safe (publish k d)"
  by (simp_all add: redis_commands)

lemma safe_pubsub_close [simp]: "safe pubsub_close"
  unfolding safe_def pubsub_close_def
  using safe_redis_call [unfolded safe_def]
  by (auto split: option.splits)

lemma never_raises_redis_disconnect: "never_raises (redis_disconnect c)"
proof -
  have body: "safe (and_then (get_session c) (\<lambda>session_id_bytes.
                  case session_id_bytes of
                    None \<Rightarrow> return ()
                  | Some session_id \<Rightarrow>
                      and_then (hdel session_id c) (\<lambda>_.
                      and_then (delete_session c) (\<lambda>_.
                      and_then (decr session_id) (\<lambda>_.
                      and_then (hlen session_id) (\<lambda>count. return ()))))))"
    by (intro safe_and_then safe_commands) (auto split: option.splits intro!: safe_and_then)
  have "never_raises (try_except (and_then (get_session c) (\<lambda>session_id_bytes.
                  case session_id_bytes of
                    None \<Rightarrow> return ()
                  | Some session_id \<Rightarrow>
                      and_then (hdel session_id c) (\<lambda>_.
                      and_then (delete_session c) (\<lambda>_.
                      and_then (decr session_id) (\<lambda>_.
                      and_then (hlen session_id) (\<lambda>count. return ())))))) (\<lambda>e. return ()))"
    by (rule never_raises_try_except [OF body]) simp
  then show ?thesis
    unfolding never_raises_def redis_disconnect_def Let_def by auto
qed

lemma never_raises_for_each: "(\<And>x. never_raises (f x)) \<Longrightarrow> never_raises (for_each f xs)"
  by (induction xs) (simp_all add: never_raises_and_then)

lemma never_raises_get_count: "never_raises (redis_get_session_connection_count k)"
  unfolding redis_get_session_connection_count_def
  by (rule never_raises_try_except) simp_all

lemma never_raises_send_to_local: "never_raises (send_to_local_connections k m)"
  unfolding send_to_local_connections_def
proof (rule never_raises_try_except)
  show "safe (and_then (hgetall k) (\<lambda>connections s.
          case local_pass m connections 0 [] s of
            (sent_count, connections_to_remove, s') \<Rightarrow>
              and_then (for_each redis_disconnect connections_to_remove)
                (\<lambda>_. return sent_count) s'))"
  proof (rule safe_and_then)
    fix conns
    show "safe (\<lambda>s. case local_pass m conns 0 [] s of
            (sent_count, connections_to_remove, s') \<Rightarrow>
              and_then (for_each redis_disconnect connections_to_remove)
                (\<lambda>_. return sent_count) s')"
      unfolding safe_def
    proof (intro allI impI)
      fix s e s'
      assume a: "(case local_pass m conns 0 [] s of
            (sent_count, connections_to_remove, s') \<Rightarrow>
              and_then (for_each redis_disconnect connections_to_remove)
                (\<lambda>_. return sent_count) s') = (Inl e, s')"
      obtain n rem s1 where p: "local_pass m conns 0 [] s = (n, rem, s1)"
        by (cases "local_pass m conns 0 [] s") auto
      have "never_raises (and_then (for_each redis_disconnect rem) (\<lambda>_. return n))"
        by (intro never_raises_and_then never_raises_for_each never_raises_redis_disconnect) simp
      then obtain x s2 where "and_then (for_each redis_disconnect rem) (\<lambda>_. return n) s1 = (Inr x, s2)"
        unfolding never_raises_def by blast
      with a p show "is_Exception e" by simp
    qed
  qed simp
qed simp

lemma next_fault_eq: "next_fault fs = (fst (next_fault fs), drop 1 fs)"
  by (cases fs) simp_all

lemma steady_refl [simp]: "steady s s"
  unfolding steady_def by (auto intro: exI [of _ 0])

lemma steady_trans: "steady s s1 \<Longrightarrow> steady s1 s2 \<Longrightarrow> steady s s2"
  unfolding steady_def by (auto simp: drop_drop)

lemma steady_store_up: "steady s s' \<Longrightarrow> store_up s \<Longrightarrow> store_up s'"
  unfolding steady_def store_up_def by (auto dest: in_set_dropD)

lemma preserves_return: "(\<And>a. R a a) \<Longrightarrow> preserves R (return x)"
  by (simp add: preserves_def return_def)

lemma preserves_raise: "(\<And>a. R a a) \<Longrightarrow> preserves R (raise e)"
  by (simp add: preserves_def raise_def)

lemma preserves_and_then:
  assumes "preserves R m" and "\<And>x. preserves R (f x)"
    and tr: "\<And>a b c. R a b \<Longrightarrow> R b c \<Longrightarrow> R a c"
  shows "preserves R (and_then m f)"
  unfolding preserves_def
proof (intro allI impI)
  fix s r s'
  assume a: "and_then m f s = (r, s')"
  obtain r1 s1 where m: "m s = (r1, s1)" by (cases "m s")
  from assms(1) m have 1: "R s s1" unfolding preserves_def by blast
  show "R s s'"
  proof (cases r1)
    case (Inl e)
    with a m have "s' = s1" by (simp add: and_then_def)
    with 1 show ?thesis by simp
  next
    case (Inr x)
    with a m have "f x s1 = (r, s')" by (simp add: and_then_def)
    with assms(2) have "R s1 s'" unfolding preserves_def by blast
    with 1 tr show ?thesis by blast
  qed
qed

lemma preserves_try_except:
  assumes "preserves R m" and "\<And>e. preserves R (h e)"
    and tr: "\<And>a b c. R a b \<Longrightarrow> R b c \<Longrightarrow> R a c"
  shows "preserves R (try_except m h)"
  unfolding preserves_def
proof (intro allI impI)
  fix s r s'
  assume a: "try_except m h s = (r, s')"
  obtain r1 s1 where m: "m s = (r1, s1)" by (cases "m s")
  from assms(1) m have 1: "R s s1" unfolding preserves_def by blast
  show "R s s'"
  proof (cases r1)
    case (Inl e)
    show ?thesis
    proof (cases "is_Exception e")
      case True
      with a m Inl have "h e s1 = (r, s')" by (simp add: try_except_def)
      with assms(2) have "R s1 s'" unfolding preserves_def by blast
      with 1 tr show ?thesis by blast
    next
      case False
      with a m Inl have "s' = s1" by (simp add: try_except_def)
      with 1 show ?thesis by simp
    qed
  next
    case (Inr x)
    with a m have "s' = s1" by (simp add: try_except_def)
    with 1 show ?thesis by simp
  qed
qed

lemmas steady_and_then = preserves_and_then [where R = steady, OF _ _ steady_trans]
lemmas steady_try_except = preserves_try_except [where R = steady, OF _ _ steady_trans]
lemmas steady_return = preserves_return [where R = steady, OF steady_refl]

lemma steady_redis_call:
  assumes "\<And>s x s'. c s = (x, s') \<Longrightarrow> steady s s'"
  shows "preserves steady (redis_call c)"
  unfolding preserves_def
proof (intro allI impI)
  fix s r s'
  assume a: "redis_call c s = (r, s')"
  have st: "steady s (s\<lparr>redis_faults := drop 1 (redis_faults s)\<rparr>)"
    unfolding steady_def by (auto intro: exI [of _ 1])
  show "steady s s'"
  proof (cases "redis_client s \<and> \<not> fst (next_fault (redis_faults s))")
    case True
    obtain x s1 where c: "c (s\<lparr>redis_faults := drop 1 (redis_faults s)\<rparr>) = (x, s1)"
      by (cases "c (s\<lparr>redis_faults := drop 1 (redis_faults s)\<rparr>)")
    from a True c have "s' = s1"
      by (subst (asm) redis_call_def, subst (asm) next_fault_eq) (simp split: if_splits)
    with assms [OF c] st show ?thesis by (auto intro: steady_trans)
  next
    case False
    with a have "s' = s \<or> s' = s\<lparr>redis_faults := drop 1 (redis_faults s)\<rparr>"
      by (subst (asm) redis_call_def, subst (asm) next_fault_eq) (auto split: if_splits)
    with st show ?thesis by auto
  qed
qed

lemma steady_commands [simp]:
  "preserves steady ping" "preserves steady (hset k f v)" "preserves steady (hdel k f)"
  "preserves steady (hlen k)" "preserves steady (hgetall k)" "preserves steady expire"
  "preserves steady (set_session c k)" "preserves steady (get_session c)"
  "preserves steady (delete_session c)" "preserves steady (incr k)"
  "preserves steady (decr k)" "preserves steady (get_count k)" "preserves steady (publish k d)"
  unfolding redis_commands
  by (rule steady_redis_call; auto simp: steady_def intro: exI [of _ 0])+

lemma steady_send_json: "send_json ws m s = (r, s') \<Longrightarrow> steady s s'"
  unfolding send_json_def steady_def
  by (auto split: prod.splits bool.splits intro: exI [of _ 0])

lemma redis_disconnect_alt:
  "redis_disconnect c s =
     (if \<not> initialized s then (Inr (), s\<lparr>local_connections := AList.delete c (local_connections s)\<rparr>)
      else try_except (disconnect_body c) (\<lambda>e. return ())
             (s\<lparr>local_connections := AList.delete c (local_connections s)\<rparr>))"
  by (simp add: redis_disconnect_def disconnect_body_def Let_def)

lemma steady_disconnect_body: "preserves steady (disconnect_body c)"
  unfolding disconnect_body_def
  by (intro steady_and_then steady_commands)
     (auto split: option.splits intro!: steady_and_then steady_return)

lemma steady_local_upd [simp]: "steady s (s\<lparr>local_connections := l\<rparr>)"
  unfolding steady_def by (auto intro: exI [of _ 0])

lemma steady_redis_disconnect: "preserves steady (redis_disconnect c)"
proof -
  have "preserves steady (try_except (disconnect_body c) (\<lambda>e. return ()))"
    by (intro steady_try_except steady_disconnect_body steady_return)
  then show ?thesis
    unfolding preserves_def redis_disconnect_alt
    by (auto split: if_splits intro: steady_trans [OF steady_local_upd])
qed


lemma recorded_owner_cases:
  "recorded_owner v = Some sid \<longleftrightarrow> (\<exists>info. v = Text (JObj info) \<and> map_of info ''server_id'' = Some (JStr sid))"
  unfolding recorded_owner_def
  by (auto split: payload.splits json.splits option.splits)

lemma local_pass_step:
  "local_pass msg (e # es) n rem s =
     (case verdict s e of
        Skip \<Rightarrow> local_pass msg es n rem s
      | Remove \<Rightarrow> local_pass msg es n (rem @ [fst e]) s
      | Write ws \<Rightarrow>
          (case send_json ws msg s of
             (Inl _, s') \<Rightarrow> local_pass msg es n (rem @ [fst e]) s'
           | (Inr _, s') \<Rightarrow> local_pass msg es (Suc n) rem s'))"
proof (cases e)
  case (Pair c v)
  show ?thesis
  proof (cases v)
    case Garbled
    with Pair show ?thesis by (simp add: verdict_def recorded_owner_def)
  next
    case (Text j)
    with Pair show ?thesis
      by (cases j)
         (auto simp: verdict_def recorded_owner_def split: option.splits json.splits prod.splits sum.splits)
  qed
qed

lemma send_json_redis_eq:
  "send_json ws m (s::redis_manager) =
     ((if fst (next_fault (socket_faults s)) then Inl SocketError else Inr ()),
      s\<lparr>socket_faults := drop 1 (socket_faults s),
        socket_log := socket_log s @ [(ws, m, \<not> fst (next_fault (socket_faults s)))]\<rparr>)"
  by (cases "socket_faults s") (auto simp: send_json_def)

lemma verdict_socket_upd [simp]:
  "verdict (s\<lparr>socket_faults := a\<rparr>) e = verdict s e"
  "verdict (s\<lparr>socket_log := b\<rparr>) e = verdict s e"
  by (simp_all add: verdict_def)

lemma deliverable_Cons:
  "deliverable (e # es) s = (case verdict s e of Write ws \<Rightarrow> [ws] | _ \<Rightarrow> []) @ deliverable es s"
  by (auto simp: deliverable_def verdict_def split: option.splits payload.splits json.splits)

lemma deliverable_Nil [simp]: "deliverable [] s = []"
  by (simp add: deliverable_def)

lemma deliverable_socket_upd [simp]:
  "deliverable es (s\<lparr>socket_faults := a\<rparr>) = deliverable es s"
  "deliverable es (s\<lparr>socket_log := b\<rparr>) = deliverable es s"
  by (induction es) (simp_all add: deliverable_Cons)

lemma pass_removed_socket_upd [simp]:
  "pass_removed (s\<lparr>socket_faults := a\<rparr>) es fs = pass_removed s es fs"
  "pass_removed (s\<lparr>socket_log := b\<rparr>) es fs = pass_removed s es fs"
  by (induction es arbitrary: fs) (simp_all split: verdict.splits)

lemma local_pass_closed:
  "local_pass msg es n rem s =
     (n + length (filter id (write_outcomes (length (deliverable es s)) (socket_faults s))),
      rem @ pass_removed s es (socket_faults s),
      s\<lparr>socket_faults := drop (length (deliverable es s)) (socket_faults s),
        socket_log := socket_log s @ local_writes msg es s\<rparr>)"
proof (induction es arbitrary: n rem s)
  case Nil
  then show ?case by (simp add: local_writes_def)
next
  case (Cons e es)
  show ?case
  proof (cases "verdict s e")
    case Skip
    then show ?thesis
      by (simp add: local_pass_step Cons.IH deliverable_Cons local_writes_def)
  next
    case Remove
    then show ?thesis
      by (simp add: local_pass_step Cons.IH deliverable_Cons local_writes_def)
  next
    case (Write ws)
    then show ?thesis
      by (simp add: local_pass_step Cons.IH send_json_redis_eq snd_next_fault deliverable_Cons
          local_writes_def)
  qed
qed

lemma pass_removed_subset: "set (pass_removed s es fs) \<subseteq> fst ` {e \<in> set es. verdict s e \<noteq> Skip}"
  by (induction es arbitrary: fs) (auto split: verdict.splits if_splits)

lemma pass_removed_Remove: "e \<in> set es \<Longrightarrow> verdict s e = Remove \<Longrightarrow> fst e \<in> set (pass_removed s es fs)"
  by (induction es arbitrary: fs) (auto split: verdict.splits if_splits)

lemma pass_removed_distinct: "distinct (map fst es) \<Longrightarrow> distinct (pass_removed s es fs)"
proof (induction es arbitrary: fs)
  case Nil
  then show ?case by simp
next
  case (Cons e es)
  have "fst e \<notin> set (pass_removed s es fs')" for fs'
    using pass_removed_subset [of s es fs'] Cons.prems by auto
  with Cons show ?case
    by (auto split: verdict.splits)
qed

lemma count_ok_local:
  "length xs = length ys \<Longrightarrow>
   length (filter (\<lambda>(ws, msg, ok). ok) (map (\<lambda>(ws, ok). (ws, m, ok)) (zip xs ys))) =
   length (filter id ys)"
  by (induction xs ys rule: list_induct2) auto

lemma stale_verdict: "stale s e \<Longrightarrow> verdict s e = Remove"
  by (simp add: stale_def verdict_def)

lemma foreign_verdict: "foreign s e \<Longrightarrow> verdict s e = Skip"
  by (auto simp: foreign_def verdict_def recorded_owner_def
      split: option.splits payload.splits json.splits)

lemma no_fault_drop [simp]: "True \<notin> set fs \<Longrightarrow> True \<notin> set (drop n fs)"
  by (auto dest: in_set_dropD)

lemma next_fault_up: "True \<notin> set fs \<Longrightarrow> next_fault fs = (False, drop 1 fs)"
  by (cases fs) auto

lemma redis_call_up:
  "redis_client s \<Longrightarrow> True \<notin> set (redis_faults s) \<Longrightarrow>
   redis_call c s = (case c (s\<lparr>redis_faults := drop 1 (redis_faults s)\<rparr>) of (x, s') \<Rightarrow> (Inr x, s'))"
  by (simp add: redis_call_def next_fault_up)

lemma redis_call_down:
  "redis_client s \<Longrightarrow> redis_faults s = True # fs \<Longrightarrow>
   redis_call c s = (Inl RedisError, s\<lparr>redis_faults := fs\<rparr>)"
  by (simp add: redis_call_def)

lemma store_up_simps [simp]:
  "store_up s \<Longrightarrow> store_up (s\<lparr>redis_faults := drop n (redis_faults s)\<rparr>)"
  "store_up (s\<lparr>local_connections := l\<rparr>) = store_up s"
  "store_up (s\<lparr>connections_hash := h\<rparr>) = store_up s"
  "store_up (s\<lparr>connection_session := r\<rparr>) = store_up s"
  "store_up (s\<lparr>connection_count := cc\<rparr>) = store_up s"
  "store_up (s\<lparr>published := p\<rparr>) = store_up s"
  "store_up (s\<lparr>socket_log := sl\<rparr>) = store_up s"
  "store_up (s\<lparr>socket_faults := sf\<rparr>) = store_up s"
  by (simp_all add: store_up_def)

text \<open>
  C8. For a connection with no reverse mapping, \<open>disconnect\<close> returns without raising and
  leaves the hashes, the reverse mappings, the counters and the published messages as
  they are, whatever the calls to the server do.
\<close>

theorem disconnect_unknown_is_noop:
  assumes "connection_session s c = None"
  shows "fst (redis_disconnect c s) = Inr ()
       \<and> connections_hash (snd (redis_disconnect c s)) = connections_hash s
       \<and> connection_session (snd (redis_disconnect c s)) = connection_session s
       \<and> connection_count (snd (redis_disconnect c s)) = connection_count s
       \<and> published (snd (redis_disconnect c s)) = published s"
  using assms
  by (auto simp: redis_disconnect_alt disconnect_body_def get_session_def redis_call_def
      try_except_def and_then_def return_def split: prod.splits bool.splits)

lemma disconnect_body_up:
  assumes "store_up s"
  shows "disconnect_body c s =
     (Inr (), case connection_session s c of
        None \<Rightarrow> s\<lparr>redis_faults := drop 1 (redis_faults s)\<rparr>
      | Some k \<Rightarrow>
          s\<lparr>redis_faults := drop 5 (redis_faults s),
            connections_hash := (connections_hash s)(k := AList.delete c (connections_hash s k)),
            connection_session := (connection_session s)(c := None),
            connection_count := (connection_count s)(k \<mapsto> counter_value (connection_count s k) - 1)\<rparr>)"
proof (cases "connection_session s c")
  case None
  with assms [unfolded store_up_def] show ?thesis
    by (simp add: disconnect_body_def get_session_def redis_call_up and_then_def return_def)
next
  case (Some k)
  with assms [unfolded store_up_def] show ?thesis
    by (simp add: disconnect_body_def get_session_def hdel_def delete_session_def decr_def hlen_def
        redis_call_up and_then_def return_def eval_nat_numeral)
qed

lemma redis_disconnect_up:
  assumes "store_up s" "initialized s"
  shows "redis_disconnect c s =
     (Inr (), case connection_session s c of
        None \<Rightarrow> s\<lparr>local_connections := AList.delete c (local_connections s),
                   redis_faults := drop 1 (redis_faults s)\<rparr>
      | Some k \<Rightarrow>
          s\<lparr>local_connections := AList.delete c (local_connections s),
            redis_faults := drop 5 (redis_faults s),
            connections_hash := (connections_hash s)(k := AList.delete c (connections_hash s k)),
            connection_session := (connection_session s)(c := None),
            connection_count := (connection_count s)(k \<mapsto> counter_value (connection_count s k) - 1)\<rparr>)"
  using assms
  by (simp add: redis_disconnect_alt try_except_def disconnect_body_up split: option.splits)

lemma never_raises_D: "never_raises m \<Longrightarrow> m s = (Inr (projr (fst (m s))), snd (m s))"
  unfolding never_raises_def
proof -
  assume "\<forall>s. \<exists>x s'. m s = (Inr x, s')"
  then obtain x s' where "m s = (Inr x, s')" by blast
  then show ?thesis by simp
qed

lemma never_raises_safe: "never_raises m \<Longrightarrow> safe m"
  unfolding never_raises_def safe_def
  by (metis Inl_Inr_False fst_conv)

lemma for_each_disconnect_eq:
  "for_each redis_disconnect rem s = (Inr (), snd (for_each redis_disconnect rem s))"
  using never_raises_D [OF never_raises_for_each [of redis_disconnect rem], of s]
  by (simp add: never_raises_redis_disconnect)

lemma hgetall_eq:
  "hgetall k s =
     (if \<not> redis_client s then (Inl AttributeError, s)
      else if fst (next_fault (redis_faults s))
           then (Inl RedisError, s\<lparr>redis_faults := drop 1 (redis_faults s)\<rparr>)
           else (Inr (connections_hash s k), s\<lparr>redis_faults := drop 1 (redis_faults s)\<rparr>))"
  unfolding hgetall_def redis_call_def
  by (subst next_fault_eq) simp

lemma and_then_Inr: "m s = (Inr x, s') \<Longrightarrow> and_then m f s = f x s'"
  by (simp add: and_then_def)

lemma and_then_Inl: "m s = (Inl e, s') \<Longrightarrow> and_then m f s = (Inl e, s')"
  by (simp add: and_then_def)

lemma try_except_Inr: "m s = (Inr x, s') \<Longrightarrow> try_except m h s = (Inr x, s')"
  by (simp add: try_except_def)

lemma try_except_Inl: "m s = (Inl e, s') \<Longrightarrow> is_Exception e \<Longrightarrow> try_except m h s = h e s'"
  by (simp add: try_except_def)

lemma send_to_local_eq:
  "send_to_local_connections k m s =
     (if redis_client s \<and> \<not> fst (next_fault (redis_faults s))
      then (case local_pass m (connections_hash s k) 0 [] (s\<lparr>redis_faults := drop 1 (redis_faults s)\<rparr>) of
              (n, rem, s1) \<Rightarrow> (Inr n, snd (for_each redis_disconnect rem s1)))
      else (Inr 0, if redis_client s then s\<lparr>redis_faults := drop 1 (redis_faults s)\<rparr> else s))"
proof (cases "redis_client s \<and> \<not> fst (next_fault (redis_faults s))")
  case True
  let ?s0 = "s\<lparr>redis_faults := drop 1 (redis_faults s)\<rparr>"
  obtain n rem s1 where p: "local_pass m (connections_hash s k) 0 [] ?s0 = (n, rem, s1)"
    by (cases "local_pass m (connections_hash s k) 0 [] ?s0") auto
  have h: "hgetall k s = (Inr (connections_hash s k), ?s0)"
    using True by (simp add: hgetall_eq)
  obtain s2 where fe: "for_each redis_disconnect rem s1 = (Inr (), s2)"
    using for_each_disconnect_eq [of rem s1] by blast
  have "send_to_local_connections k m s = (Inr n, s2)"
    using h p fe
    by (simp add: send_to_local_connections_def try_except_def and_then_def return_def)
  with True p fe show ?thesis by simp
next
  case False
  then have "hgetall k s = (Inl AttributeError, s) \<and> \<not> redis_client s \<or>
      hgetall k s = (Inl RedisError, s\<lparr>redis_faults := drop 1 (redis_faults s)\<rparr>) \<and> redis_client s"
    by (auto simp: hgetall_eq)
  then show ?thesis
  proof
    assume a: "hgetall k s = (Inl AttributeError, s) \<and> \<not> redis_client s"
    then have "send_to_local_connections k m s = (Inr 0, s)"
      by (simp add: send_to_local_connections_def try_except_def and_then_def return_def)
    with a show ?thesis by simp
  next
    assume a: "hgetall k s = (Inl RedisError, s\<lparr>redis_faults := drop 1 (redis_faults s)\<rparr>) \<and> redis_client s"
    then have "send_to_local_connections k m s = (Inr 0, s\<lparr>redis_faults := drop 1 (redis_faults s)\<rparr>)"
      by (simp add: send_to_local_connections_def try_except_def and_then_def return_def)
    with a False show ?thesis by simp
  qed
qed



lemma never_raises_send_to_session: "never_raises (redis_send_to_session k m)"
proof -
  have "never_raises (try_except
            (and_then (publish k (json_dumps (JObj (AList.update ''server_id'' (JStr sid) m)))) (\<lambda>published.
             and_then (send_to_local_connections k m) (\<lambda>local_count.
             and_then (redis_get_session_connection_count k) (\<lambda>total_count.
               return total_count))))
            (\<lambda>e. return 0))" for sid
    by (intro never_raises_try_except safe_and_then safe_commands never_raises_safe
        never_raises_send_to_local never_raises_get_count) simp_all
  then show ?thesis
    unfolding never_raises_def redis_send_to_session_def by auto
qed

text \<open>
  C1, as amended. \<open>send_to_session\<close> never raises. When the manager is initialized and the
  publish call fails, it returns 0 and nothing else happens: no write to a local socket,
  no change of the registry or of the store; only the failed call is consumed.
\<close>

theorem publish_failure_returns_zero:
  "(\<exists>n s'. redis_send_to_session k m s = (Inr n, s')) \<and>
   (initialized s \<and> redis_client s \<and> redis_faults s = True # fs \<longrightarrow>
      redis_send_to_session k m s = (Inr 0, s\<lparr>redis_faults := fs\<rparr>))"
proof
  show "\<exists>n s'. redis_send_to_session k m s = (Inr n, s')"
    using never_raises_send_to_session [of k m] unfolding never_raises_def by blast
  show "initialized s \<and> redis_client s \<and> redis_faults s = True # fs \<longrightarrow>
      redis_send_to_session k m s = (Inr 0, s\<lparr>redis_faults := fs\<rparr>)"
    by (simp add: redis_send_to_session_def publish_def redis_call_down try_except_def
        and_then_def return_def)
qed



lemma store_up_next: "store_up s \<Longrightarrow> redis_client s \<and> \<not> fst (next_fault (redis_faults s))"
  by (simp add: store_up_def next_fault_up)



lemma for_each_Cons_snd:
  "snd (for_each redis_disconnect (c # rem) s) =
     snd (for_each redis_disconnect rem (snd (redis_disconnect c s)))"
proof -
  obtain s1 where "redis_disconnect c s = (Inr (), s1)"
    using never_raises_redis_disconnect [of c] unfolding never_raises_def by auto
  then show ?thesis by (simp add: and_then_def)
qed

lemma for_each_Nil_snd [simp]: "snd (for_each f [] s) = s"
  by (simp add: return_def)

lemma purge_steady: "steady s (snd (redis_disconnect c s))"
  using steady_redis_disconnect [of c] unfolding preserves_def by (metis prod.collapse)

lemma steady_initialized: "steady s s' \<Longrightarrow> initialized s' = initialized s"
  by (simp add: steady_def)

lemma purge_fields:
  assumes "store_up s" "initialized s"
  shows "connection_session (snd (redis_disconnect c s)) = (connection_session s)(c := None)"
    and "connections_hash (snd (redis_disconnect c s)) =
          (case connection_session s c of
             None \<Rightarrow> connections_hash s
           | Some k \<Rightarrow> (connections_hash s)(k := AList.delete c (connections_hash s k)))"
    and "connection_count (snd (redis_disconnect c s)) =
          (case connection_session s c of
             None \<Rightarrow> connection_count s
           | Some k \<Rightarrow> (connection_count s)(k \<mapsto> counter_value (connection_count s k) - 1))"
  using assms by (auto simp: redis_disconnect_up split: option.splits)

lemma purged_sessions:
  "store_up s \<Longrightarrow> initialized s \<Longrightarrow>
   connection_session (snd (for_each redis_disconnect rem s)) c =
     (if c \<in> set rem then None else connection_session s c)"
proof (induction rem arbitrary: s)
  case Nil
  then show ?case by (simp add: return_def)
next
  case (Cons d rem)
  let ?s1 = "snd (redis_disconnect d s)"
  have "store_up ?s1" "initialized ?s1"
    using purge_steady [of s d] Cons.prems
    by (auto dest: steady_store_up simp: steady_initialized)
  from Cons.IH [OF this] show ?case
    unfolding for_each_Cons_snd by (simp add: purge_fields(1) [OF Cons.prems])
qed

lemma delete_filter: "AList.delete c xs = filter (\<lambda>e. fst e \<noteq> c) xs"
  by (induction xs) auto

lemma purged_hash:
  "store_up s \<Longrightarrow> initialized s \<Longrightarrow>
   connections_hash (snd (for_each redis_disconnect rem s)) k =
     filter (\<lambda>e. \<not> (fst e \<in> set rem \<and> connection_session s (fst e) = Some k)) (connections_hash s k)"
proof (induction rem arbitrary: s)
  case Nil
  then show ?case by (simp add: return_def)
next
  case (Cons d rem)
  let ?s1 = "snd (redis_disconnect d s)"
  have "store_up ?s1" "initialized ?s1"
    using purge_steady [of s d] Cons.prems
    by (auto dest: steady_store_up simp: steady_initialized)
  from Cons.IH [OF this]
  have "connections_hash (snd (for_each redis_disconnect (d # rem) s)) k =
      filter (\<lambda>e. \<not> (fst e \<in> set rem \<and> connection_session ?s1 (fst e) = Some k)) (connections_hash ?s1 k)"
    unfolding for_each_Cons_snd .
  also have "\<dots> = filter (\<lambda>e. \<not> (fst e \<in> set (d # rem) \<and> connection_session s (fst e) = Some k)) (connections_hash s k)"
    unfolding purge_fields(1,2) [OF Cons.prems]
    by (cases "connection_session s d") (auto simp: delete_filter intro!: filter_cong)
  finally show ?case .
qed

lemma purged_count:
  "store_up s \<Longrightarrow> initialized s \<Longrightarrow> distinct rem \<Longrightarrow>
   connection_count (snd (for_each redis_disconnect rem s)) k =
     (if filter (\<lambda>c. connection_session s c = Some k) rem = [] then connection_count s k
      else Some (counter_value (connection_count s k)
                 - int (length (filter (\<lambda>c. connection_session s c = Some k) rem))))"
proof (induction rem arbitrary: s)
  case Nil
  then show ?case by (simp add: return_def)
next
  case (Cons d rem)
  let ?s1 = "snd (redis_disconnect d s)"
  have up: "store_up ?s1" "initialized ?s1"
    using purge_steady [of s d] Cons.prems
    by (auto dest: steady_store_up simp: steady_initialized)
  from Cons.prems have d: "d \<notin> set rem" "distinct rem" by simp_all
  have f: "filter (\<lambda>c. connection_session ?s1 c = Some k) rem =
      filter (\<lambda>c. connection_session s c = Some k) rem"
    using d(1) by (intro filter_cong) (auto simp: purge_fields(1) [OF Cons.prems(1,2)])
  from Cons.IH [OF up d(2)] show ?case
    unfolding for_each_Cons_snd f purge_fields(3) [OF Cons.prems(1,2)]
    by (cases "connection_session s d") (auto simp: counter_value_def)
qed

lemma keeps_refl [simp]: "keeps c s s"
  by (simp add: keeps_def)

lemma keeps_trans: "keeps c s s1 \<Longrightarrow> keeps c s1 s2 \<Longrightarrow> keeps c s s2"
  by (simp add: keeps_def)

lemmas keeps_and_then = preserves_and_then [where R = "keeps c" for c, OF _ _ keeps_trans]
lemmas keeps_try_except = preserves_try_except [where R = "keeps c" for c, OF _ _ keeps_trans]
lemmas keeps_return = preserves_return [where R = "keeps c" for c, OF keeps_refl]

lemma preserves_redis_call:
  assumes rf: "\<And>s. R s s" and tr: "\<And>a b c. R a b \<Longrightarrow> R b c \<Longrightarrow> R a c"
    and fl: "\<And>s f. R s (s\<lparr>redis_faults := f\<rparr>)"
    and cmd: "\<And>s x s'. c s = (x, s') \<Longrightarrow> R s s'"
  shows "preserves R (redis_call c)"
  unfolding preserves_def
proof (intro allI impI)
  fix s r s'
  assume a: "redis_call c s = (r, s')"
  let ?s0 = "s\<lparr>redis_faults := drop 1 (redis_faults s)\<rparr>"
  show "R s s'"
  proof (cases "redis_client s \<and> \<not> fst (next_fault (redis_faults s))")
    case True
    obtain x s1 where c: "c ?s0 = (x, s1)" by (cases "c ?s0")
    from a True c have "s' = s1"
      by (subst (asm) redis_call_def, subst (asm) next_fault_eq) (simp split: if_splits)
    with cmd [OF c] fl [of s] tr show ?thesis by blast
  next
    case False
    with a have "s' = s \<or> s' = ?s0"
      by (subst (asm) redis_call_def, subst (asm) next_fault_eq) (auto split: if_splits)
    with rf fl show ?thesis by auto
  qed
qed

lemma keeps_faults [simp]: "keeps c s (s\<lparr>redis_faults := f\<rparr>)"
  by (simp add: keeps_def)

lemmas keeps_redis_call = preserves_redis_call [where R = "keeps c" for c, OF keeps_refl keeps_trans keeps_faults]

lemma keep_delete:
  "d \<noteq> c \<Longrightarrow> filter (\<lambda>e. fst e = c) (AList.delete d xs) = filter (\<lambda>e. fst e = c) xs"
  by (induction xs) auto

lemma keeps_commands:
  "preserves (keeps c) (get_session d)" "preserves (keeps c) (hlen k)" "preserves (keeps c) (decr k)"
  "preserves (keeps c) (hgetall k)"
  "d \<noteq> c \<Longrightarrow> preserves (keeps c) (hdel k d)"
  "d \<noteq> c \<Longrightarrow> preserves (keeps c) (delete_session d)"
  unfolding get_session_def hdel_def delete_session_def decr_def hlen_def hgetall_def
  by (rule keeps_redis_call; auto simp: keeps_def keep_delete)+

lemma keeps_disconnect_body: "d \<noteq> c \<Longrightarrow> preserves (keeps c) (disconnect_body d)"
  unfolding disconnect_body_def
  by (intro keeps_and_then keeps_commands)
     (auto split: option.splits intro!: keeps_return keeps_and_then keeps_commands)

lemma keeps_local_upd [simp]: "keeps c s (s\<lparr>local_connections := l\<rparr>)"
  by (simp add: keeps_def)

lemma keeps_redis_disconnect: "d \<noteq> c \<Longrightarrow> preserves (keeps c) (redis_disconnect d)"
proof -
  assume "d \<noteq> c"
  then have "preserves (keeps c) (try_except (disconnect_body d) (\<lambda>e. return ()))"
    by (intro keeps_try_except keeps_disconnect_body keeps_return)
  then show ?thesis
    unfolding preserves_def redis_disconnect_alt
    by (auto split: if_splits intro: keeps_trans [OF keeps_local_upd])
qed

lemma keeps_for_each: "c \<notin> set rem \<Longrightarrow> preserves (keeps c) (for_each redis_disconnect rem)"
  by (induction rem) (auto intro!: keeps_and_then keeps_return keeps_redis_disconnect)

lemma keeps_local_pass: "local_pass m es n rem s = (n', rem', s') \<Longrightarrow> keeps c s s'"
  unfolding local_pass_closed keeps_def by auto

lemma pass_removed_faults [simp]:
  "pass_removed (s\<lparr>redis_faults := f\<rparr>) es fs = pass_removed s es fs"
  by (induction es arbitrary: fs) (simp_all add: verdict_def split: verdict.splits)

lemma keeps_send_to_local:
  assumes "c \<notin> set (pass_removed s (connections_hash s k) (socket_faults s))"
  shows "keeps c s (snd (send_to_local_connections k m s))"
proof (cases "redis_client s \<and> \<not> fst (next_fault (redis_faults s))")
  case True
  let ?s0 = "s\<lparr>redis_faults := drop 1 (redis_faults s)\<rparr>"
  let ?rem = "pass_removed s (connections_hash s k) (socket_faults s)"
  obtain n s1 where p: "local_pass m (connections_hash s k) 0 [] ?s0 = (n, ?rem, s1)"
    by (simp add: local_pass_closed)
  have 1: "keeps c s ?s0" by simp
  have 2: "keeps c ?s0 s1" by (rule keeps_local_pass [OF p])
  have 3: "keeps c s1 (snd (for_each redis_disconnect ?rem s1))"
    using keeps_for_each [OF assms] unfolding preserves_def by (metis prod.collapse)
  from True p have "snd (send_to_local_connections k m s) = snd (for_each redis_disconnect ?rem s1)"
    by (simp add: send_to_local_eq)
  with 1 2 3 show ?thesis by (metis keeps_trans)
next
  case False
  then show ?thesis by (auto simp: send_to_local_eq)
qed

lemma log_redis_call: "(\<And>s x s'. c s = (x, s') \<Longrightarrow> socket_log s' = socket_log s) \<Longrightarrow>
  preserves (\<lambda>s s'. socket_log s' = socket_log s) (redis_call c)"
  by (rule preserves_redis_call) auto

lemma log_disconnect_body: "preserves (\<lambda>s s'. socket_log s' = socket_log s) (disconnect_body d)"
  unfolding disconnect_body_def get_session_def hdel_def delete_session_def decr_def hlen_def
  by (intro preserves_and_then log_redis_call)
     (auto split: option.splits intro!: preserves_return preserves_and_then log_redis_call)

lemma log_redis_disconnect: "preserves (\<lambda>s s'. socket_log s' = socket_log s) (redis_disconnect d)"
proof -
  have "preserves (\<lambda>s s'. socket_log s' = socket_log s) (try_except (disconnect_body d) (\<lambda>e. return ()))"
    by (intro preserves_try_except log_disconnect_body preserves_return) auto
  then show ?thesis
    unfolding preserves_def redis_disconnect_alt
    by (auto split: if_splits)
qed

lemma log_for_each: "socket_log (snd (for_each redis_disconnect rem s)) = socket_log s"
proof -
  have "preserves (\<lambda>s s'. socket_log s' = socket_log s) (for_each redis_disconnect rem)"
    by (induction rem) (auto intro!: preserves_and_then preserves_return log_redis_disconnect)
  then show ?thesis unfolding preserves_def by (metis prod.collapse)
qed

lemma deliverable_faults [simp]: "deliverable es (s\<lparr>redis_faults := f\<rparr>) = deliverable es s"
  by (induction es) (simp_all add: deliverable_Cons verdict_def)

lemma local_writes_faults [simp]: "local_writes m es (s\<lparr>redis_faults := f\<rparr>) = local_writes m es s"
  by (simp add: local_writes_def)

lemma send_to_local_log:
  "socket_log (snd (send_to_local_connections k m s)) =
     socket_log s @ (if redis_client s \<and> \<not> fst (next_fault (redis_faults s))
                     then local_writes m (connections_hash s k) s else [])"
  by (auto simp: send_to_local_eq local_pass_closed log_for_each)

lemma foreign_not_removed:
  assumes "distinct (map fst es)" "e \<in> set es" "foreign s e"
  shows "fst e \<notin> set (pass_removed s es fs)"
proof
  assume "fst e \<in> set (pass_removed s es fs)"
  with pass_removed_subset [of s es fs]
  obtain e' where e': "e' \<in> set es" "verdict s e' \<noteq> Skip" "fst e' = fst e" by auto
  from assms(1,2) e'(1,3) have "e' = e"
    by (metis eq_key_imp_eq_value prod.collapse)
  with e'(2) foreign_verdict [OF assms(3)] show False by simp
qed

text \<open>
  C4, as amended. For a hash with each field once and any entry \<open>e\<close> of it, the local
  send raises nothing; it writes to the sockets of the entries that record this process
  and are in the local registry, and to no other (none at all when the read of the hash
  fails); an entry that records another process stays as it is, with its reverse
  mapping. A stale entry is purged when the manager is initialized, the calls to the
  server go through and the reverse mapping of the connection is this session: its
  field and its reverse mapping are deleted, and the counter goes down by one for each
  connection removed in the pass that is mapped to this session.
\<close>

theorem local_pass_purges_stale_entries:
  assumes "distinct (map fst (connections_hash s k))" and "e \<in> set (connections_hash s k)"
  shows "(\<exists>n. fst (send_to_local_connections k m s) = Inr n)
    \<and> socket_log (snd (send_to_local_connections k m s)) =
        socket_log s @ (if redis_client s \<and> \<not> fst (next_fault (redis_faults s))
                        then local_writes m (connections_hash s k) s else [])
    \<and> (foreign s e \<longrightarrow>
          e \<in> set (connections_hash (snd (send_to_local_connections k m s)) k)
        \<and> connection_session (snd (send_to_local_connections k m s)) (fst e) = connection_session s (fst e))
    \<and> (stale s e \<and> initialized s \<and> store_up s \<and> connection_session s (fst e) = Some k \<longrightarrow>
          fst e \<notin> fst ` set (connections_hash (snd (send_to_local_connections k m s)) k)
        \<and> connection_session (snd (send_to_local_connections k m s)) (fst e) = None
        \<and> connection_count (snd (send_to_local_connections k m s)) k =
            Some (counter_value (connection_count s k)
                  - int (length (filter (\<lambda>c. connection_session s c = Some k)
                           (pass_removed s (connections_hash s k) (socket_faults s))))))"
proof (intro conjI impI)
  show "\<exists>n. fst (send_to_local_connections k m s) = Inr n"
    using never_raises_send_to_local [of k m] unfolding never_raises_def
    by (metis fst_conv)
  show "socket_log (snd (send_to_local_connections k m s)) =
        socket_log s @ (if redis_client s \<and> \<not> fst (next_fault (redis_faults s))
                        then local_writes m (connections_hash s k) s else [])"
    by (rule send_to_local_log)
next
  assume f: "foreign s e"
  let ?s' = "snd (send_to_local_connections k m s)"
  have "keeps (fst e) s ?s'"
    by (rule keeps_send_to_local [OF foreign_not_removed [OF assms f]])
  then have k: "connection_session ?s' (fst e) = connection_session s (fst e)"
    "filter (\<lambda>x. fst x = fst e) (connections_hash ?s' k) =
     filter (\<lambda>x. fst x = fst e) (connections_hash s k)"
    by (simp_all add: keeps_def)
  from assms(2) have "e \<in> set (filter (\<lambda>x. fst x = fst e) (connections_hash s k))" by simp
  with k(2) have "e \<in> set (filter (\<lambda>x. fst x = fst e) (connections_hash ?s' k))" by simp
  then show "e \<in> set (connections_hash ?s' k)" by simp
  from k(1) show "connection_session ?s' (fst e) = connection_session s (fst e)" .
next
  assume a: "stale s e \<and> initialized s \<and> store_up s \<and> connection_session s (fst e) = Some k"
  let ?s' = "snd (send_to_local_connections k m s)"
  let ?es = "connections_hash s k"
  let ?rem = "pass_removed s ?es (socket_faults s)"
  let ?s0 = "s\<lparr>redis_faults := drop 1 (redis_faults s)\<rparr>"
  let ?s1 = "?s0\<lparr>socket_faults := drop (length (deliverable ?es s)) (socket_faults s),
                 socket_log := socket_log s @ local_writes m ?es s\<rparr>"
  have p: "local_pass m ?es 0 [] ?s0 = (length (filter id (write_outcomes (length (deliverable ?es s)) (socket_faults s))), ?rem, ?s1)"
    by (simp add: local_pass_closed)
  from a have ok: "redis_client s \<and> \<not> fst (next_fault (redis_faults s))"
    by (simp add: store_up_next)
  have s': "?s' = snd (for_each redis_disconnect ?rem ?s1)"
    using ok p by (simp add: send_to_local_eq)
  have up: "store_up ?s1" "initialized ?s1" using a by (simp_all add: store_up_def)
  have mem: "fst e \<in> set ?rem"
    using pass_removed_Remove [OF assms(2) stale_verdict] a by blast
  have dist: "distinct ?rem" by (rule pass_removed_distinct [OF assms(1)])
  have ne: "filter (\<lambda>c. connection_session ?s1 c = Some k) ?rem \<noteq> []"
    using mem a by (auto simp: filter_empty_conv)
  show "fst e \<notin> fst ` set (connections_hash ?s' k)"
    unfolding s' purged_hash [OF up] using mem a by auto
  show "connection_session ?s' (fst e) = None"
    unfolding s' purged_sessions [OF up] using mem by simp
  show "connection_count ?s' k =
            Some (counter_value (connection_count s k)
                  - int (length (filter (\<lambda>c. connection_session s c = Some k) ?rem)))"
    unfolding s' purged_count [OF up dist] using ne by simp
qed








lemma await_cancelled_eq: "await_cancelled s = (Inr (), s\<lparr>listener_task := Some Cancelled\<rparr>)"
  by (simp add: await_cancelled_def cancelled_listener_def try_except_def raise_def)

lemma pubsub_close_eq:
  "pubsub s = Some p \<Longrightarrow>
   try_except pubsub_close (\<lambda>e. return ()) s =
     (Inr (), if \<not> redis_client s then s
              else if fst (next_fault (redis_faults s)) then s\<lparr>redis_faults := drop 1 (redis_faults s)\<rparr>
              else s\<lparr>redis_faults := drop 1 (redis_faults s), pubsub := Some (PubSub [] True)\<rparr>)"
  unfolding pubsub_close_def redis_call_def try_except_def
  by (subst next_fault_eq) (simp add: return_def)

lemma cleanup_eq: "cleanup s = (Inr (), after_cleanup s)"
proof -
  let ?s1 = "if listener_task s = Some Running then s\<lparr>listener_task := Some Cancelled\<rparr> else s"
  have 1: "(case listener_task s of
                 Some t \<Rightarrow> if \<not> task_done t then await_cancelled s else (Inr (), s)
               | None \<Rightarrow> (Inr (), s)) = (Inr (), ?s1)"
  proof (cases "listener_task s")
    case None
    then show ?thesis by simp
  next
    case (Some t)
    then show ?thesis by (cases t) (simp_all add: await_cancelled_eq)
  qed
  show ?thesis
  proof (cases "pubsub ?s1")
    case None
    with 1 show ?thesis
      unfolding cleanup_def and_then_def after_cleanup_def Let_def by simp
  next
    case (Some p)
    from pubsub_close_eq [OF Some] 1 Some show ?thesis
      unfolding cleanup_def and_then_def after_cleanup_def Let_def by simp
  qed
qed

text \<open>
  C9. \<open>cleanup\<close> never raises, from any state: it cancels and awaits a running listener,
  closes the subscription object when there is one, and leaves the flag down; so does
  every further call, and on a manager that was never initialized it changes nothing.
\<close>

theorem cleanup_never_raises:
  "cleanup s = (Inr (), after_cleanup s)
   \<and> initialized (after_cleanup s) = False
   \<and> listener_task (after_cleanup s) \<noteq> Some Running
   \<and> fst (cleanup (((\<lambda>s. snd (cleanup s)) ^^ n) s)) = Inr ()
   \<and> initialized (snd (cleanup (((\<lambda>s. snd (cleanup s)) ^^ n) s))) = False
   \<and> cleanup (new_manager sid client rfaults sfaults) = (Inr (), new_manager sid client rfaults sfaults)"
  by (simp add: cleanup_eq) (simp add: after_cleanup_def Let_def new_manager_def split: option.splits)

lemmas run_defs = initialize_def redis_connect_def redis_disconnect_def send_to_local_connections_def
  redis_send_to_session_def redis_get_session_connection_count_def get_session_info_def
  redis_commands redis_call_def psubscribe_def pubsub_close_def accept_def send_json_def
  and_then_def try_except_def return_def raise_def json_dumps_def connection_info_def
  counter_value_def Let_def c1_info_def c9_info_def

lemma srv1_ready_eq:
  "srv1_ready =
     \<lparr>socket_log = [], socket_faults = [], local_connections = [], server_id = ''srv1'',
      pubsub = Some (PubSub [''session:*''] False), initialized = True,
      listener_task = Some Running, redis_client = True,
      connections_hash = (\<lambda>k. []), connection_session = Map.empty,
      connection_count = Map.empty, published = [], redis_faults = []\<rparr>"
  by (simp add: srv1_ready_def new_manager_def run_defs)

lemma one_local_connection_eq:
  "one_local_connection =
     \<lparr>socket_log = [], socket_faults = [], local_connections = [(''c1'', WebSocket 1)],
      server_id = ''srv1'',
      pubsub = Some (PubSub [''session:*''] False), initialized = True,
      listener_task = Some Running, redis_client = True,
      connections_hash = (\<lambda>k. [])(1 := [(''c1'', c1_info)]),
      connection_session = [''c1'' \<mapsto> 1],
      connection_count = [1 \<mapsto> 1], published = [], redis_faults = []\<rparr>"
  by (simp add: one_local_connection_def srv1_ready_eq run_defs)

lemma broker_down_send:
  "redis_send_to_session 1 ping_message broker_down = (Inr 0, one_local_connection)"
  by (simp add: broker_down_def one_local_connection_eq run_defs)

lemma broker_up_send:
  "fst (redis_send_to_session 1 ping_message one_local_connection) = Inr 1"
  "socket_log (snd (redis_send_to_session 1 ping_message one_local_connection)) =
     [(WebSocket 1, ping_message, True)]"
  by (simp_all add: one_local_connection_eq run_defs)

text \<open>
  C1 as stated fails: \<open>c1\<close> is in the local registry and in the directory of session 1;
  with the publish call failing no frame is written, with the same state and the call
  going through the frame is written.
\<close>

theorem publish_failure_skips_local_delivery:
  "map_of (local_connections broker_down) ''c1'' = Some (WebSocket 1)
   \<and> map_of (connections_hash broker_down 1) ''c1'' = Some c1_info
   \<and> broker_down = one_local_connection\<lparr>redis_faults := [True]\<rparr>
   \<and> socket_log (snd (redis_send_to_session 1 ping_message broker_down)) = []
   \<and> socket_log (snd (redis_send_to_session 1 ping_message one_local_connection)) =
       [(WebSocket 1, ping_message, True)]"
  by (simp add: broker_down_send broker_up_send)
     (simp add: broker_down_def one_local_connection_eq)

theorem publish_failure_returns_zero_witness:
  "initialized broker_down \<and> redis_client broker_down \<and> redis_faults broker_down = True # []
   \<and> redis_send_to_session 1 ping_message broker_down = (Inr 0, broker_down\<lparr>redis_faults := []\<rparr>)"
proof -
  have h: "initialized broker_down \<and> redis_client broker_down \<and> redis_faults broker_down = True # []"
    by (simp add: broker_down_def one_local_connection_eq)
  with publish_failure_returns_zero [of 1 ping_message broker_down "[]"] show ?thesis by blast
qed





lemma stale_and_foreign_eq:
  "stale_and_foreign =
     \<lparr>socket_log = [], socket_faults = [], local_connections = [],
      server_id = ''srv1'',
      pubsub = Some (PubSub [''session:*''] False), initialized = True,
      listener_task = Some Running, redis_client = True,
      connections_hash = (\<lambda>k. [])(1 := [(''c1'', c1_info), (''c9'', c9_info)]),
      connection_session = [''c1'' \<mapsto> 1, ''c9'' \<mapsto> 1],
      connection_count = [1 \<mapsto> 2], published = [], redis_faults = []\<rparr>"
  by (simp add: stale_and_foreign_def broker_down_def one_local_connection_eq run_defs)

lemma stale_and_foreign_send:
  "send_to_local_connections 1 ping_message stale_and_foreign =
     (Inr 0, stale_and_foreign
        \<lparr>connections_hash := (\<lambda>k. [])(1 := [(''c9'', c9_info)]),
         connection_session := [''c9'' \<mapsto> 1],
         connection_count := [1 \<mapsto> 1]\<rparr>)"
  by (simp add: stale_and_foreign_eq run_defs fun_upd_twist)

theorem local_pass_purges_stale_entries_witness:
  "distinct (map fst (connections_hash stale_and_foreign 1))
   \<and> (''c1'', c1_info) \<in> set (connections_hash stale_and_foreign 1)
   \<and> (''c9'', c9_info) \<in> set (connections_hash stale_and_foreign 1)
   \<and> stale stale_and_foreign (''c1'', c1_info) \<and> foreign stale_and_foreign (''c9'', c9_info)
   \<and> initialized stale_and_foreign \<and> store_up stale_and_foreign
   \<and> connection_session stale_and_foreign ''c1'' = Some 1
   \<and> fst (send_to_local_connections 1 ping_message stale_and_foreign) = Inr 0
   \<and> socket_log (snd (send_to_local_connections 1 ping_message stale_and_foreign)) = []
   \<and> ''c1'' \<notin> fst ` set (connections_hash (snd (send_to_local_connections 1 ping_message stale_and_foreign)) 1)
   \<and> connection_session (snd (send_to_local_connections 1 ping_message stale_and_foreign)) ''c1'' = None
   \<and> connection_count (snd (send_to_local_connections 1 ping_message stale_and_foreign)) 1 = Some 1
   \<and> (''c9'', c9_info) \<in> set (connections_hash (snd (send_to_local_connections 1 ping_message stale_and_foreign)) 1)"
proof -
  have d: "distinct (map fst (connections_hash stale_and_foreign 1))"
    and e1: "(''c1'', c1_info) \<in> set (connections_hash stale_and_foreign 1)"
    and e9: "(''c9'', c9_info) \<in> set (connections_hash stale_and_foreign 1)"
    by (simp_all add: stale_and_foreign_eq)
  have st: "stale stale_and_foreign (''c1'', c1_info)"
    and fo: "foreign stale_and_foreign (''c9'', c9_info)"
    by (simp_all add: stale_and_foreign_eq stale_def foreign_def recorded_owner_def run_defs)
  have up: "initialized stale_and_foreign \<and> store_up stale_and_foreign
      \<and> connection_session stale_and_foreign ''c1'' = Some 1"
    by (simp add: stale_and_foreign_eq store_up_def)
  have v: "fst (send_to_local_connections 1 ping_message stale_and_foreign) = Inr 0"
    "socket_log (snd (send_to_local_connections 1 ping_message stale_and_foreign)) = []"
    "connection_count (snd (send_to_local_connections 1 ping_message stale_and_foreign)) 1 = Some 1"
    by (simp_all add: stale_and_foreign_send) (simp add: stale_and_foreign_eq)
  from local_pass_purges_stale_entries [OF d e1, of ping_message] st up
  have p1: "''c1'' \<notin> fst ` set (connections_hash (snd (send_to_local_connections 1 ping_message stale_and_foreign)) 1)
      \<and> connection_session (snd (send_to_local_connections 1 ping_message stale_and_foreign)) ''c1'' = None"
    by simp
  from local_pass_purges_stale_entries [OF d e9, of ping_message] fo
  have p9: "(''c9'', c9_info) \<in> set (connections_hash (snd (send_to_local_connections 1 ping_message stale_and_foreign)) 1)"
    by blast
  from d e1 e9 st fo up v p1 p9 show ?thesis by blast
qed

lemma orphan_entry_eq:
  "orphan_entry =
     \<lparr>socket_log = [], socket_faults = [], local_connections = [],
      server_id = ''srv1'',
      pubsub = Some (PubSub [''session:*''] False), initialized = True,
      listener_task = Some Running, redis_client = True,
      connections_hash = (\<lambda>k. [])(1 := [(''c1'', c1_info)]),
      connection_session = Map.empty,
      connection_count = Map.empty, published = [], redis_faults = []\<rparr>"
  by (simp add: orphan_entry_def srv1_ready_eq run_defs)

text \<open>
  C4 as stated fails: a stale entry whose reverse mapping is missing is still in the
  hash after the local send, on an initialized manager whose calls all go through.
\<close>

theorem stale_entry_without_reverse_mapping_stays:
  "stale orphan_entry (''c1'', c1_info)
   \<and> (''c1'', c1_info) \<in> set (connections_hash orphan_entry 1)
   \<and> initialized orphan_entry \<and> store_up orphan_entry
   \<and> (''c1'', c1_info) \<in> set (connections_hash (snd (send_to_local_connections 1 ping_message orphan_entry)) 1)"
  by (simp add: orphan_entry_eq stale_def recorded_owner_def store_up_def run_defs)




theorem disconnect_unknown_is_noop_witness:
  "connection_session one_local_connection ''ghost'' = None
   \<and> fst (redis_disconnect ''ghost'' one_local_connection) = Inr ()
   \<and> connections_hash (snd (redis_disconnect ''ghost'' one_local_connection)) 1 = [(''c1'', c1_info)]
   \<and> connection_session (snd (redis_disconnect ''ghost'' one_local_connection)) ''c1'' = Some 1
   \<and> connection_count (snd (redis_disconnect ''ghost'' one_local_connection)) 1 = Some 1"
proof -
  have h: "connection_session one_local_connection ''ghost'' = None"
    by (simp add: one_local_connection_eq)
  from disconnect_unknown_is_noop [OF h] h show ?thesis
    by (simp add: one_local_connection_eq)
qed

theorem cleanup_never_raises_witness:
  "cleanup srv1_ready =
     (Inr (), srv1_ready\<lparr>pubsub := Some (PubSub [] True), initialized := False,
                          listener_task := Some Cancelled\<rparr>)
   \<and> fst (cleanup (snd (cleanup srv1_ready))) = Inr ()
   \<and> initialized (snd (cleanup (snd (cleanup srv1_ready)))) = False
   \<and> fst (initialize (new_manager ''srv1'' True [True] [])) = Inl RedisError
   \<and> fst (cleanup (snd (initialize (new_manager ''srv1'' True [True] [])))) = Inr ()"
proof -
  have a: "after_cleanup srv1_ready =
      srv1_ready\<lparr>pubsub := Some (PubSub [] True), initialized := False,
                          listener_task := Some Cancelled\<rparr>"
    by (simp add: after_cleanup_def srv1_ready_eq)
  have i: "fst (initialize (new_manager ''srv1'' True [True] [])) = Inl RedisError"
    by (simp add: new_manager_def run_defs)
  from cleanup_never_raises [of srv1_ready 1 "''srv1''" True "[]" "[]"]
  have c1: "cleanup srv1_ready = (Inr (), after_cleanup srv1_ready)"
    and c2: "fst (cleanup (((\<lambda>s. snd (cleanup s)) ^^ 1) srv1_ready)) = Inr ()"
    and c3: "initialized (snd (cleanup (((\<lambda>s. snd (cleanup s)) ^^ 1) srv1_ready))) = False"
    by blast+
  from cleanup_never_raises [of "snd (initialize (new_manager ''srv1'' True [True] []))" 0 "''srv1''" True "[]" "[]"]
  have c4: "fst (cleanup (snd (initialize (new_manager ''srv1'' True [True] [])))) = Inr ()"
    by simp
  have c2': "fst (cleanup (snd (cleanup srv1_ready))) = Inr ()"
    and c3': "initialized (snd (cleanup (snd (cleanup srv1_ready)))) = False"
    using c2 c3 by simp_all
  from c1 a have "cleanup srv1_ready =
     (Inr (), srv1_ready\<lparr>pubsub := Some (PubSub [] True), initialized := False,
                          listener_task := Some Cancelled\<rparr>)" by simp
  with c2' c3' c4 i show ?thesis by blast
qed

end
